theory Spec2Isabelle
  imports Main
begin

section \<open>The tracking store of bedup (tracking.py)\<close>

text \<open>
  The tracked state is the content of the \<^verbatim>\<open>inode\<close> and \<^verbatim>\<open>volume\<close> tables.
  An Inode row is identified by its volume and its inode number; sizes, generations and
  identifiers are the unsigned 64-bit quantities the filesystem hands out, held in
  Python's unbounded integers, so they are natural numbers here and no arithmetic wraps.
  The column \<^verbatim>\<open>size\<close> is written \<open>size'\<close> and the column \<^verbatim>\<open>id\<close> is written \<open>id'\<close>.
\<close>

type_synonym path = string
type_synonym hash = nat

record inode =
  vol_id :: nat
  ino :: nat
  size' :: nat
  has_updates :: bool
  mini_hash :: "hash option"
  fiemap_hash :: "hash option"

record volume =
  id' :: nat
  st_dev :: nat
  size_cutoff :: nat
  last_tracked_generation :: nat
  last_tracked_size_cutoff :: "nat option"

text \<open>Error numbers the code tells apart; \<open>EOTHER n\<close> stands for any other errno.\<close>

datatype errno = ENOENT | ETXTBSY | EACCES | EOTHER nat

datatype error = IOError errno | AssertionError | AttributeError | KeyError

definition same_key :: "nat \<Rightarrow> nat \<Rightarrow> inode \<Rightarrow> bool" where
  "same_key v i r = (vol_id r = v \<and> ino r = i)"

text \<open>
  Modelled from the spec: \<^verbatim>\<open>get_or_create\<close> lives in model.py, which is not part of the
  sources at hand. The store operation \<^verbatim>\<open>get_or_create(entity, natural_key) -> (row,
  created_flag)\<close> returns the row with the natural key, creating it when there is none.
  A fresh row carries no fingerprints; its size and update flag are overwritten by the caller.
\<close>

definition fresh_inode :: "nat \<Rightarrow> nat \<Rightarrow> inode" where
  "fresh_inode v i =
     \<lparr>vol_id = v, ino = i, size' = 0, has_updates = False, mini_hash = None, fiemap_hash = None\<rparr>"

definition get_or_create :: "inode list \<Rightarrow> nat \<Rightarrow> nat \<Rightarrow> inode list \<times> bool" where
  "get_or_create inodes v i =
     (case find (same_key v i) inodes of
        Some r \<Rightarrow> (inodes, False)
      | None \<Rightarrow> (inodes @ [fresh_inode v i], True))"

text \<open>\<^verbatim>\<open>sess.delete(inode)\<close>, and \<^verbatim>\<open>sess.expunge(inode)\<close> of a row that was only just created:
  afterwards the table has no row with that key.\<close>

definition delete_inode :: "nat \<Rightarrow> nat \<Rightarrow> inode list \<Rightarrow> inode list" where
  "delete_inode v i inodes = filter (\<lambda>r. \<not> same_key v i r) inodes"

definition expunge_inode :: "nat \<Rightarrow> nat \<Rightarrow> inode list \<Rightarrow> inode list" where
  "expunge_inode v i inodes = filter (\<lambda>r. \<not> same_key v i r) inodes"

section \<open>Scanner: \<^verbatim>\<open>track_updated_files\<close>\<close>

text \<open>
  One record of a TREE_SEARCH reply: the search header fields the scanner reads and the
  three fields it takes from the inode item behind an INODE_ITEM header.
\<close>

datatype key_type = BTRFS_INODE_ITEM_KEY | OTHER_KEY nat

record search_item =
  sh_objectid :: nat
  sh_type :: key_type
  sh_transid :: nat
  stack_inode_generation :: nat
  stack_inode_size :: nat
  stack_inode_mode :: nat

text \<open>\<^verbatim>\<open>stat.S_ISREG(mode)\<close>: the file type bits \<^verbatim>\<open>0o170000\<close> equal \<^verbatim>\<open>0o100000\<close>.\<close>

definition S_ISREG :: "nat \<Rightarrow> bool" where
  "S_ISREG mode = (and mode 61440 = 32768)"

text \<open>Lines 282-286: the generation the search starts from.\<close>

definition min_generation_of :: "volume \<Rightarrow> nat" where
  "min_generation_of vol =
     (case last_tracked_size_cutoff vol of
        None \<Rightarrow> 0
      | Some s_prev \<Rightarrow>
          if s_prev \<le> size_cutoff vol then last_tracked_generation vol + 1 else 0)"

text \<open>
  Lines 344-357: the chain of \<^verbatim>\<open>continue\<close> statements. The second test reads
  \<^verbatim>\<open>vol.last_tracked_size_cutoff and size >= vol.last_tracked_size_cutoff\<close>, which takes
  the truth value of the cutoff: both \<^verbatim>\<open>None\<close> and \<^verbatim>\<open>0\<close> send the record to the
  \<^verbatim>\<open>else\<close> branch.
\<close>

definition covered_last_time :: "volume \<Rightarrow> nat \<Rightarrow> bool" where
  "covered_last_time vol sz =
     (case last_tracked_size_cutoff vol of
        None \<Rightarrow> False
      | Some s_prev \<Rightarrow> s_prev \<noteq> 0 \<and> sz \<ge> s_prev)"

definition skip_record :: "volume \<Rightarrow> nat \<Rightarrow> search_item \<Rightarrow> bool" where
  "skip_record vol min_generation sh =
     (let inode_gen = stack_inode_generation sh;
          sz = stack_inode_size sh;
          mode = stack_inode_mode sh
      in if sz < size_cutoff vol then True
         else if (if covered_last_time vol sz
                  then inode_gen \<le> last_tracked_generation vol
                  else inode_gen < min_generation) then True
         else if \<not> S_ISREG mode then True
         else False)"

text \<open>
  Lines 338-373, the body of the loop over the records of one reply.
  \<open>lookup\<close> is \<^verbatim>\<open>lookup_ino_path_one(vol.fd, ino)\<close>; every \<^verbatim>\<open>IOError\<close> it raises is caught
  here. Decoding the path only feeds the progress display and is left out.
\<close>

definition set_size_updates :: "nat \<Rightarrow> nat \<Rightarrow> nat \<Rightarrow> inode list \<Rightarrow> inode list" where
  "set_size_updates v i sz inodes =
     map (\<lambda>r. if same_key v i r then r\<lparr>size' := sz, has_updates := True\<rparr> else r) inodes"

definition track_item ::
  "(nat \<Rightarrow> errno + path) \<Rightarrow> volume \<Rightarrow> nat \<Rightarrow> search_item \<Rightarrow> inode list \<Rightarrow> inode list" where
  "track_item lookup vol min_generation sh inodes =
     (if sh_type sh \<noteq> BTRFS_INODE_ITEM_KEY then inodes
      else if skip_record vol min_generation sh then inodes
      else
        let ino = sh_objectid sh;
            (inodes1, inode_created) = get_or_create inodes (id' vol) ino;
            inodes2 = set_size_updates (id' vol) ino (stack_inode_size sh) inodes1
        in case lookup ino of
             Inl e \<Rightarrow>
               if inode_created then expunge_inode (id' vol) ino inodes2
               else delete_inode (id' vol) ino inodes2
           | Inr path \<Rightarrow> inodes2)"

text \<open>
  Lines 319-387. The kernel's answers to the successive TREE_SEARCH calls are given as a
  list: \<open>Inl e\<close> is a failing ioctl (the \<^verbatim>\<open>IOError\<close> is re-raised), \<open>Inr items\<close> a reply
  with \<open>length items\<close> records. The loop stops at the first reply with no record; a list
  that ends without one is followed by such a reply.
\<close>

fun scan_items ::
  "(nat \<Rightarrow> errno + path) \<Rightarrow> volume \<Rightarrow> nat \<Rightarrow> search_item list \<Rightarrow> inode list \<Rightarrow> inode list" where
  "scan_items lookup vol min_generation [] inodes = inodes"
| "scan_items lookup vol min_generation (sh # shs) inodes =
     scan_items lookup vol min_generation shs (track_item lookup vol min_generation sh inodes)"

fun scan_loop ::
  "(nat \<Rightarrow> errno + path) \<Rightarrow> volume \<Rightarrow> nat \<Rightarrow> (errno + search_item list) list \<Rightarrow>
   inode list \<Rightarrow> error + inode list" where
  "scan_loop lookup vol min_generation [] inodes = Inr inodes"
| "scan_loop lookup vol min_generation (Inl e # replies) inodes = Inl (IOError e)"
| "scan_loop lookup vol min_generation (Inr [] # replies) inodes = Inr inodes"
| "scan_loop lookup vol min_generation (Inr (sh # shs) # replies) inodes =
     scan_loop lookup vol min_generation replies
       (scan_items lookup vol min_generation (sh # shs) inodes)"

text \<open>
  Lines 278-390. \<open>top_generation\<close> is \<^verbatim>\<open>get_root_generation(vol.fd)\<close>, read once at the
  start. The result is the volume row and the Inode table after the call.
\<close>

definition track_updated_files ::
  "(nat \<Rightarrow> errno + path) \<Rightarrow> nat \<Rightarrow> (errno + search_item list) list \<Rightarrow>
   volume \<times> inode list \<Rightarrow> error + volume \<times> inode list" where
  "track_updated_files lookup top_generation replies db =
     (let vol = fst db; inodes = snd db;
          min_generation = min_generation_of vol
      in if min_generation > top_generation then Inr (vol, inodes)
         else case scan_loop lookup vol min_generation replies inodes of
                Inl e \<Rightarrow> Inl e
              | Inr inodes' \<Rightarrow>
                  Inr (vol\<lparr>last_tracked_generation := top_generation,
                           last_tracked_size_cutoff := Some (size_cutoff vol)\<rparr>, inodes'))"

section \<open>Grouper: \<^verbatim>\<open>windowed_query\<close>, \<^verbatim>\<open>clear_updates\<close>, \<^verbatim>\<open>dedup_tracked\<close>\<close>

text \<open>
  A Commonality row (the three levels have the same shape): the shared size, the number
  of member inodes the grouping query counted, and the member Inode rows.
\<close>

record commonality =
  comm_size :: nat
  inode_count :: nat
  comm_inodes :: "inode list"

record dedup_event =
  item_size :: nat
  event_inodes :: "(nat \<times> nat) list"

text \<open>
  What the dedup pass does to the outside, in the order it does it: raising the soft
  descriptor limit, opening a file read-write, asking for a clone, hashing a file head.
\<close>

datatype call =
    Setrlimit int int
  | Fopenat_rw nat path
  | Clone_data nat nat
  | Mini_hash nat nat

text \<open>
  The state the dedup pass works on: the Inode table, the \<^verbatim>\<open>skipped\<close> list shared by
  \<^verbatim>\<open>dedup_tracked\<close> and \<^verbatim>\<open>dedup_tracked1\<close>, the DedupEvent rows (each with its
  DedupEventInode rows as pairs of inode number and volume), the local \<^verbatim>\<open>ofile_soft\<close>,
  and the calls issued so far.
\<close>

record session =
  inode_table :: "inode list"
  skipped :: "inode list"
  dedup_events :: "dedup_event list"
  ofile_soft :: int
  calls :: "call list"

definition is_skipped :: "inode list \<Rightarrow> inode \<Rightarrow> bool" where
  "is_skipped skp r = list_ex (\<lambda>s. same_key (vol_id s) (ino s) r) skp"



text \<open>
  Lines 393-407. The generator is the list of what it does: it yields an element or it
  calls \<^verbatim>\<open>clear_updates\<close>. The query is evaluated afresh for every page, against rows
  that the consumer changes between two pages, so \<open>query n\<close> stands for the rows the
  query matches when page \<open>n\<close> is fetched; \<open>n\<close> counts the pages and is the only
  addition to the parameters of the source. The callback is \<^verbatim>\<open>clear_updates\<close>, \<^verbatim>\<open>attr\<close>
  is the size column.
\<close>

datatype 'a event = Yield 'a | Clear_updates int int

definition query_page :: "commonality list \<Rightarrow> int \<Rightarrow> nat \<Rightarrow> commonality list" where
  "query_page rows window_start per =
     take per (sort_key (\<lambda>el. - int (comm_size el))
                 (filter (\<lambda>el. int (comm_size el) \<le> window_start) rows))"

function windowed_query ::
  "int \<Rightarrow> (nat \<Rightarrow> commonality list) \<Rightarrow> nat \<Rightarrow> nat \<Rightarrow> commonality event list" where
  "windowed_query window_start query n per =
     (let li = query_page (query n) window_start per
      in if li = [] then [Clear_updates window_start 0]
         else let window_end = int (comm_size (last li))
              in map Yield li @ [Clear_updates window_start window_end]
                 @ windowed_query (window_end - 1) query (Suc n) per)"
  by pat_completeness auto
termination
proof (relation "measure (\<lambda>(window_start, query, n, per). nat (window_start + 1))")
  show "wf (measure (\<lambda>(window_start, query, n, per). nat (window_start + 1)))"
    by simp
next
  fix window_start :: int and query :: "nat \<Rightarrow> commonality list" and n per :: nat
    and li :: "commonality list" and window_end :: int
  assume li: "li = query_page (query n) window_start per" and ne: "li \<noteq> []"
    and we: "window_end = int (comm_size (last li))"
  from ne have "last li \<in> set li" by simp
  with li have "last li \<in> set (filter (\<lambda>el. int (comm_size el) \<le> window_start) (query n))"
    unfolding query_page_def by (auto dest: in_set_takeD)
  then have "window_end \<le> window_start" using we by simp
  moreover have "0 \<le> window_end" using we by simp
  ultimately show "((window_end - 1, query, Suc n, per), (window_start, query, n, per))
      \<in> measure (\<lambda>(window_start, query, n, per). nat (window_start + 1))"
    by simp
qed

declare windowed_query.simps [simp del]

definition WINDOW_SIZE :: nat where
  "WINDOW_SIZE = 200"

text \<open>Line 418: three descriptors for stdio, three for sqlite, one stray, one per volume.\<close>

definition ofile_reserved_of :: "volume list \<Rightarrow> int" where
  "ofile_reserved_of volset = 7 + int (length volset)"

text \<open>
  Line 445: \<^verbatim>\<open>sess.query(Inode).order_by(-Inode.size).first().size\<close>. The query is over
  the whole Inode table; \<^verbatim>\<open>first()\<close> of an empty result is \<^verbatim>\<open>None\<close>, whose \<^verbatim>\<open>size\<close>
  raises.
\<close>

definition first_window_start :: "inode list \<Rightarrow> error + int" where
  "first_window_start tbl =
     (case sort_key (\<lambda>r. - int (size' r)) tbl of
        [] \<Rightarrow> Inl AttributeError
      | r # rs \<Rightarrow> Inr (int (size' r)))"

text \<open>
  Lines 420-449: the generator \<^verbatim>\<open>dedup_tracked\<close> hands to \<^verbatim>\<open>dedup_tracked1\<close>, when
  there is one. \<open>query\<close> is the Commonality1 query of the volume set (built by
  \<^verbatim>\<open>comm_mappings\<close> in model.py), \<open>le\<close> its row count.
\<close>

definition dedup_tracked_query ::
  "(nat \<Rightarrow> commonality list) \<Rightarrow> inode list \<Rightarrow> error + commonality event list" where
  "dedup_tracked_query query tbl =
     (let le = length (query 0)
      in if le \<noteq> 0
         then case first_window_start tbl of
                Inl e \<Rightarrow> Inl e
              | Inr window_start \<Rightarrow> Inr (windowed_query window_start query 0 WINDOW_SIZE)
         else Inr [])"

section \<open>Deduper: \<^verbatim>\<open>dedup_tracked1\<close>\<close>

text \<open>
  The calls into the kernel adapter and the files, as functions of what they are asked.
  A file object is identified with its descriptor. Calls the source guards with
  \<^verbatim>\<open>try\<close> return an errno or a value; the others return a value.
  \<^item> \<open>lookup_ino_path_one v i\<close>: \<^verbatim>\<open>lookup_ino_path_one(inode.vol.fd, inode.ino)\<close> for
    the inode \<open>i\<close> of volume \<open>v\<close>;
  \<^item> \<open>fopenat v p\<close>, \<open>fopenat_rw v p\<close>: opening path \<open>p\<close> under the volume's descriptor;
  \<^item> \<open>mini_hash_of fd\<close>: the hash over the head of the file;
  \<^item> \<open>fds_in_write_use fds\<close>: what \<^verbatim>\<open>ImmutableFDs(fds)\<close> reports;
  \<^item> \<open>sha1_digest fd\<close>: the digest of the whole content; \<open>tell fd\<close> the position after
    reading it; \<open>fstat_ino fd\<close>, \<open>fstat_dev fd\<close> the two fields of \<^verbatim>\<open>os.fstat(fd)\<close>;
  \<^item> \<open>cmp_files s d\<close>, \<open>clone_data d s\<close> (destination first, \<^verbatim>\<open>check_first=True\<close>);
  \<^item> \<open>vol_of v\<close>: the Volume row \<^verbatim>\<open>inode.vol\<close>.
\<close>

record env =
  lookup_ino_path_one :: "nat \<Rightarrow> nat \<Rightarrow> errno + path"
  fopenat :: "nat \<Rightarrow> path \<Rightarrow> nat"
  fopenat_rw :: "nat \<Rightarrow> path \<Rightarrow> errno + nat"
  mini_hash_of :: "nat \<Rightarrow> hash"
  fds_in_write_use :: "nat list \<Rightarrow> nat list"
  sha1_digest :: "nat \<Rightarrow> hash"
  fstat_ino :: "nat \<Rightarrow> nat"
  fstat_dev :: "nat \<Rightarrow> nat"
  tell :: "nat \<Rightarrow> nat"
  cmp_files :: "nat \<Rightarrow> nat \<Rightarrow> bool"
  clone_data :: "nat \<Rightarrow> nat \<Rightarrow> bool"
  vol_of :: "nat \<Rightarrow> volume"

definition sess_delete :: "inode \<Rightarrow> session \<Rightarrow> session" where
  "sess_delete inode st =
     st\<lparr>inode_table := delete_inode (vol_id inode) (ino inode) (inode_table st)\<rparr>"

definition skipped_append :: "inode \<Rightarrow> session \<Rightarrow> session" where
  "skipped_append inode st = st\<lparr>skipped := skipped st @ [inode]\<rparr>"

definition issue :: "call \<Rightarrow> session \<Rightarrow> session" where
  "issue c st = st\<lparr>calls := calls st @ [c]\<rparr>"

subsection \<open>Mini hashes of a Commonality1 group (lines 474-501)\<close>

text \<open>
  Modelled from the spec: \<^verbatim>\<open>Inode.mini_hash_from_file\<close> is a method of model.py, which is
  not part of the sources at hand. It stores in \<^verbatim>\<open>Inode.mini_hash\<close> the deterministic hash
  over a bounded prefix of the file it is given. The comment at its call site reads
  \<^verbatim>\<open>rehash everytime for now\<close>: the stored value is not consulted.
\<close>

definition mini_hash_from_file :: "env \<Rightarrow> inode \<Rightarrow> nat \<Rightarrow> session \<Rightarrow> session" where
  "mini_hash_from_file env inode rfile st =
     issue (Mini_hash (vol_id inode) (ino inode))
       (st\<lparr>inode_table :=
             map (\<lambda>r. if same_key (vol_id inode) (ino inode) r
                       then r\<lparr>mini_hash := Some (mini_hash_of env rfile)\<rparr> else r)
                 (inode_table st)\<rparr>)"


subsection \<open>One Commonality3 cohort (lines 520-662)\<close>

text \<open>The locals \<^verbatim>\<open>files\<close> (and \<^verbatim>\<open>fds\<close>, the same descriptors), \<^verbatim>\<open>fd_inodes\<close>, \<^verbatim>\<open>fd_names\<close>.\<close>

record opened =
  files :: "nat list"
  fd_inodes :: "nat \<rightharpoonup> inode"
  fd_names :: "nat \<rightharpoonup> path"

definition no_files :: opened where
  "no_files = \<lparr>files = [], fd_inodes = Map.empty, fd_names = Map.empty\<rparr>"

text \<open>Lines 547-586: the open loop. Every call of \<^verbatim>\<open>fopenat_rw\<close> is recorded.\<close>

fun open_inodes :: "env \<Rightarrow> inode list \<Rightarrow> session \<times> opened \<Rightarrow> error + session \<times> opened" where
  "open_inodes env [] so = Inr so"
| "open_inodes env (inode # rest) (st, opn) =
     (case lookup_ino_path_one env (vol_id inode) (ino inode) of
        Inl e \<Rightarrow>
          if e = ENOENT then open_inodes env rest (sess_delete inode st, opn)
          else Inl (IOError e)
      | Inr path \<Rightarrow>
          (let st1 = issue (Fopenat_rw (vol_id inode) path) st
           in case fopenat_rw env (vol_id inode) path of
                Inl e \<Rightarrow>
                  if e = ETXTBSY then open_inodes env rest (skipped_append inode st1, opn)
                  else if e = EACCES then open_inodes env rest (skipped_append inode st1, opn)
                  else if e = ENOENT then open_inodes env rest (skipped_append inode st1, opn)
                  else Inl (IOError e)
              | Inr fd \<Rightarrow>
                  open_inodes env rest
                    (st1, opn\<lparr>files := files opn @ [fd],
                              fd_inodes := (fd_inodes opn)(fd \<mapsto> inode),
                              fd_names := (fd_names opn)(fd \<mapsto> path)\<rparr>)))"

text \<open>
  Lines 594-624: hashing under the immutability lock. \<^verbatim>\<open>by_hash\<close> is kept in the order
  in which the digests were first met.
\<close>

definition by_hash_append ::
  "hash \<Rightarrow> nat \<Rightarrow> (hash \<times> nat list) list \<Rightarrow> (hash \<times> nat list) list" where
  "by_hash_append h afile by_hash =
     (case map_of by_hash h of
        None \<Rightarrow> by_hash @ [(h, [afile])]
      | Some fs \<Rightarrow> map (\<lambda>(k, v). if k = h then (k, v @ [afile]) else (k, v)) by_hash)"

fun hash_files ::
  "env \<Rightarrow> commonality \<Rightarrow> opened \<Rightarrow> nat list \<Rightarrow> nat list \<Rightarrow>
   session \<times> (hash \<times> nat list) list \<Rightarrow> error + session \<times> (hash \<times> nat list) list" where
  "hash_files env comm3 opn in_use [] sb = Inr sb"
| "hash_files env comm3 opn in_use (fd # rest) (st, by_hash) =
     (case fd_inodes opn fd of
        None \<Rightarrow> Inl KeyError
      | Some inode \<Rightarrow>
          if fd \<in> set in_use
          then hash_files env comm3 opn in_use rest (skipped_append inode st, by_hash)
          else if fstat_ino env fd \<noteq> ino inode
          then hash_files env comm3 opn in_use rest (skipped_append inode st, by_hash)
          else if fstat_dev env fd \<noteq> st_dev (vol_of env (vol_id inode))
          then hash_files env comm3 opn in_use rest (skipped_append inode st, by_hash)
          else if tell env fd \<noteq> comm_size comm3
          then (if tell env fd < size_cutoff (vol_of env (vol_id inode))
                then hash_files env comm3 opn in_use rest (sess_delete inode st, by_hash)
                else hash_files env comm3 opn in_use rest (skipped_append inode st, by_hash))
          else hash_files env comm3 opn in_use rest
                 (st, by_hash_append (sha1_digest env fd) fd by_hash))"

text \<open>
  Lines 637-652: the destinations of one bucket. A failed \<^verbatim>\<open>cmp_files\<close> runs into
  \<^verbatim>\<open>assert False\<close>. Every call of \<^verbatim>\<open>clone_data\<close> is recorded. The two names taken
  from \<^verbatim>\<open>fd_names\<close> only feed the notifications, which are left out throughout.
\<close>

fun clone_dfiles ::
  "env \<Rightarrow> nat \<Rightarrow> nat list \<Rightarrow> session \<times> nat list \<Rightarrow> error + session \<times> nat list" where
  "clone_dfiles env sfile [] sd = Inr sd"
| "clone_dfiles env sfile (dfile # rest) (st, dfiles_successful) =
     (if \<not> cmp_files env sfile dfile then Inl AssertionError
      else if clone_data env dfile sfile
      then clone_dfiles env sfile rest
             (issue (Clone_data dfile sfile) st, dfiles_successful @ [dfile])
      else clone_dfiles env sfile rest
             (issue (Clone_data dfile sfile) st, dfiles_successful))"

text \<open>\<^verbatim>\<open>fd_inodes[afile.fileno()]\<close> for each file of a list; a missing key raises.\<close>

fun inodes_of_files :: "opened \<Rightarrow> nat list \<Rightarrow> error + inode list" where
  "inodes_of_files opn [] = Inr []"
| "inodes_of_files opn (fd # fds) =
     (case fd_inodes opn fd of
        None \<Rightarrow> Inl KeyError
      | Some inode \<Rightarrow>
          (case inodes_of_files opn fds of
             Inl e \<Rightarrow> Inl e
           | Inr inodes \<Rightarrow> Inr (inode # inodes)))"

definition new_event :: "commonality \<Rightarrow> inode list \<Rightarrow> dedup_event" where
  "new_event comm3 inodes =
     \<lparr>item_size = comm_size comm3, event_inodes = map (\<lambda>i. (ino i, vol_id i)) inodes\<rparr>"

text \<open>Lines 626-662 for one bucket of \<^verbatim>\<open>by_hash\<close>.\<close>

definition dedup_fileset ::
  "env \<Rightarrow> commonality \<Rightarrow> opened \<Rightarrow> nat list \<Rightarrow> session \<Rightarrow> error + session" where
  "dedup_fileset env comm3 opn fileset st =
     (case fileset of
        [] \<Rightarrow> Inr st
      | [sfile] \<Rightarrow> Inr st
      | sfile # dfile # dfiles \<Rightarrow>
          (case clone_dfiles env sfile (dfile # dfiles) (st, []) of
             Inl e \<Rightarrow> Inl e
           | Inr (st1, dfiles_successful) \<Rightarrow>
               if dfiles_successful \<noteq> []
               then (case inodes_of_files opn (sfile # dfiles_successful) of
                       Inl e \<Rightarrow> Inl e
                     | Inr inodes \<Rightarrow>
                         Inr (st1\<lparr>dedup_events := dedup_events st1 @ [new_event comm3 inodes]\<rparr>))
               else Inr st1))"

fun dedup_filesets ::
  "env \<Rightarrow> commonality \<Rightarrow> opened \<Rightarrow> nat list list \<Rightarrow> session \<Rightarrow> error + session" where
  "dedup_filesets env comm3 opn [] st = Inr st"
| "dedup_filesets env comm3 opn (fileset # rest) st =
     (case dedup_fileset env comm3 opn fileset st of
        Inl e \<Rightarrow> Inl e
      | Inr st1 \<Rightarrow> dedup_filesets env comm3 opn rest st1)"

text \<open>Lines 547-662: a cohort that fits the descriptor budget.\<close>

definition process_cohort :: "env \<Rightarrow> commonality \<Rightarrow> session \<Rightarrow> error + session" where
  "process_cohort env comm3 st =
     (case open_inodes env (comm_inodes comm3) (st, no_files) of
        Inl e \<Rightarrow> Inl e
      | Inr (st1, opn) \<Rightarrow>
          (case hash_files env comm3 opn (fds_in_write_use env (files opn)) (files opn) (st1, []) of
             Inl e \<Rightarrow> Inl e
           | Inr (st2, by_hash) \<Rightarrow> dedup_filesets env comm3 opn (map snd by_hash) st2))"

text \<open>
  Lines 520-545: the descriptor budget in front of it. \<open>ofile_hard\<close> is the hard limit
  read once by \<^verbatim>\<open>resource.getrlimit\<close>; the soft limit is the local the loop updates.
\<close>

definition ofile_req_of :: "commonality \<Rightarrow> int \<Rightarrow> int" where
  "ofile_req_of comm3 ofile_reserved = 2 * int (inode_count comm3) + ofile_reserved"

definition dedup_comm3 :: "env \<Rightarrow> int \<Rightarrow> int \<Rightarrow> commonality \<Rightarrow> session \<Rightarrow> error + session" where
  "dedup_comm3 env ofile_reserved ofile_hard comm3 st =
     (let ofile_req = ofile_req_of comm3 ofile_reserved
      in if ofile_req > ofile_soft st
         then if ofile_req \<le> ofile_hard
              then process_cohort env comm3
                     (issue (Setrlimit ofile_req ofile_hard) (st\<lparr>ofile_soft := ofile_req\<rparr>))
              else Inr (st\<lparr>skipped := skipped st @ filter has_updates (comm_inodes comm3)\<rparr>)
         else process_cohort env comm3 st)"

section \<open>The statements of the specification, as definitions\<close>

text \<open>
  The per-record policy in the words of the specification: a record is skipped when its
  size is below the cutoff; or, when the previous cutoff is not null and the size reaches
  it, when its generation is not above the previous watermark; or, otherwise, when its
  generation is below the minimum generation; or when it is not a regular file.
\<close>

definition spec_skip :: "volume \<Rightarrow> search_item \<Rightarrow> bool" where
  "spec_skip vol sh =
     (stack_inode_size sh < size_cutoff vol
      \<or> (if last_tracked_size_cutoff vol \<noteq> None
             \<and> stack_inode_size sh \<ge> the (last_tracked_size_cutoff vol)
          then \<not> stack_inode_generation sh > last_tracked_generation vol
          else stack_inode_generation sh < min_generation_of vol)
      \<or> \<not> S_ISREG (stack_inode_mode sh))"

text \<open>
  Successive scans of one volume. Before a scan \<^verbatim>\<open>get_vol\<close> (lines 102-103) stores the
  cutoff given on the command line, if one is given; a run is that cutoff, the root
  generation read at the start of the scan, and the kernel's replies.
\<close>

definition get_vol_cutoff :: "nat option \<Rightarrow> volume \<Rightarrow> volume" where
  "get_vol_cutoff cutoff vol =
     (case cutoff of None \<Rightarrow> vol | Some c \<Rightarrow> vol\<lparr>size_cutoff := c\<rparr>)"

fun scan_runs ::
  "(nat \<Rightarrow> errno + path) \<Rightarrow> (nat option \<times> nat \<times> (errno + search_item list) list) list \<Rightarrow>
   volume \<times> inode list \<Rightarrow> error + (volume \<times> inode list) list" where
  "scan_runs lookup [] db = Inr []"
| "scan_runs lookup ((cutoff, top_generation, replies) # runs) db =
     (case track_updated_files lookup top_generation replies
             (get_vol_cutoff cutoff (fst db), snd db) of
        Inl e \<Rightarrow> Inl e
      | Inr db' \<Rightarrow>
          (case scan_runs lookup runs db' of
             Inl e \<Rightarrow> Inl e
           | Inr dbs \<Rightarrow> Inr (db' # dbs)))"

definition top_of_run :: "nat option \<times> nat \<times> (errno + search_item list) list \<Rightarrow> nat" where
  "top_of_run run = fst (snd run)"

definition tracked_generation :: "volume \<times> inode list \<Rightarrow> nat" where
  "tracked_generation db = last_tracked_generation (fst db)"

text \<open>The sizes of the rows of a volume set, and the largest size among some rows.\<close>

definition inodes_of_volumes :: "nat list \<Rightarrow> inode list \<Rightarrow> inode list" where
  "inodes_of_volumes vol_ids tbl = filter (\<lambda>r. vol_id r \<in> set vol_ids) tbl"

definition max_size :: "inode list \<Rightarrow> int" where
  "max_size rows = Max (set (map (\<lambda>r. int (size' r)) rows))"

text \<open>
  The calls of \<^verbatim>\<open>clear_updates\<close> in a run of the generator, as pairs
  \<open>(window_start, window_end)\<close>; the number of calls whose inclusive range holds a size;
  ranges that follow one another from a first window start down to zero; and pages
  followed by their call: after a page that is not empty comes a call whose range holds
  all its elements and ends at the size of its last element, and the run goes on; after an
  empty page comes a call that ends at 0, and the run is over.
\<close>

fun clear_calls :: "'a event list \<Rightarrow> (int \<times> int) list" where
  "clear_calls [] = []"
| "clear_calls (Yield el # es) = clear_calls es"
| "clear_calls (Clear_updates window_start window_end # es) =
     (window_start, window_end) # clear_calls es"

definition covering :: "int \<Rightarrow> (int \<times> int) list \<Rightarrow> nat" where
  "covering s cs = length (filter (\<lambda>c. snd c \<le> s \<and> s \<le> fst c) cs)"

fun contiguous_from :: "int \<Rightarrow> (int \<times> int) list \<Rightarrow> bool" where
  "contiguous_from w [] = False"
| "contiguous_from w [c] = (fst c = w \<and> snd c = 0)"
| "contiguous_from w (c # c' # cs) =
     (fst c = w \<and> snd c \<le> fst c \<and> contiguous_from (snd c - 1) (c' # cs))"

fun pages_in_range :: "commonality event list \<Rightarrow> commonality list \<Rightarrow> bool" where
  "pages_in_range [] page = (page = [])"
| "pages_in_range (Yield el # es) page = pages_in_range es (page @ [el])"
| "pages_in_range (Clear_updates window_start window_end # es) page =
     (list_all (\<lambda>el. window_end \<le> int (comm_size el) \<and> int (comm_size el) \<le> window_start) page
      \<and> (if page = [] then window_end = 0 \<and> es = []
          else window_end = int (comm_size (last page)) \<and> es \<noteq> [])
      \<and> pages_in_range es [])"

text \<open>
  The per-inode open in the words of the specification: path lookup ENOENT drops the
  inode and deletes its row; open ENOENT, ETXTBSY or EACCES skips it; anything else is
  fatal.
\<close>

datatype open_outcome = Dropped | Skipped path | Opened path nat | Fatal errno

definition open_outcome :: "env \<Rightarrow> inode \<Rightarrow> open_outcome" where
  "open_outcome env inode =
     (case lookup_ino_path_one env (vol_id inode) (ino inode) of
        Inl e \<Rightarrow> if e = ENOENT then Dropped else Fatal e
      | Inr path \<Rightarrow>
          (case fopenat_rw env (vol_id inode) path of
             Inl e \<Rightarrow> if e \<in> {ENOENT, ETXTBSY, EACCES} then Skipped path else Fatal e
           | Inr fd \<Rightarrow> Opened path fd))"

definition is_fatal :: "env \<Rightarrow> inode \<Rightarrow> bool" where
  "is_fatal env inode = (case open_outcome env inode of Fatal e \<Rightarrow> True | _ \<Rightarrow> False)"

definition is_dropped :: "env \<Rightarrow> inode \<Rightarrow> bool" where
  "is_dropped env inode = (open_outcome env inode = Dropped)"

definition dropped_row :: "env \<Rightarrow> inode list \<Rightarrow> inode \<Rightarrow> bool" where
  "dropped_row env inodes r =
     list_ex (\<lambda>i. is_dropped env i \<and> same_key (vol_id i) (ino i) r) inodes"

definition is_skipped_open :: "env \<Rightarrow> inode \<Rightarrow> bool" where
  "is_skipped_open env inode = (case open_outcome env inode of Skipped p \<Rightarrow> True | _ \<Rightarrow> False)"

definition opened_fds :: "env \<Rightarrow> inode list \<Rightarrow> nat list" where
  "opened_fds env inodes =
     concat (map (\<lambda>i. case open_outcome env i of Opened p fd \<Rightarrow> [fd] | _ \<Rightarrow> []) inodes)"


definition mini_hash_call :: "inode \<Rightarrow> call" where
  "mini_hash_call inode = Mini_hash (vol_id inode) (ino inode)"

text \<open>
  The destinations of a bucket for which \<^verbatim>\<open>clone_data\<close> returns true, and a bucket in
  which every destination equals the source byte for byte.
\<close>

definition cloned_from :: "env \<Rightarrow> nat \<Rightarrow> nat list \<Rightarrow> nat list" where
  "cloned_from env sfile dfiles = filter (\<lambda>d. clone_data env d sfile) dfiles"

definition all_equal_to :: "env \<Rightarrow> nat \<Rightarrow> nat list \<Rightarrow> bool" where
  "all_equal_to env sfile dfiles = list_all (\<lambda>d. cmp_files env sfile d) dfiles"

section \<open>Concrete scenarios\<close>

text \<open>
  A volume with identifier 1 in three states: never scanned; scanned up to generation 5
  with the cutoff of 8 bytes it still has; and the same with the cutoff since raised to 16.
  One regular file record (mode \<^verbatim>\<open>0o100644\<close>) of 10 bytes changed in generation 6, two
  path lookups, and a few Inode rows.
\<close>

definition vol_new :: volume where
  "vol_new = \<lparr>id' = 1, st_dev = 0, size_cutoff = 8, last_tracked_generation = 0,
              last_tracked_size_cutoff = None\<rparr>"

definition vol_tracked :: volume where
  "vol_tracked = \<lparr>id' = 1, st_dev = 0, size_cutoff = 8, last_tracked_generation = 5,
                  last_tracked_size_cutoff = Some 8\<rparr>"

definition vol_raised :: volume where
  "vol_raised = \<lparr>id' = 1, st_dev = 0, size_cutoff = 16, last_tracked_generation = 5,
                 last_tracked_size_cutoff = Some 8\<rparr>"

definition item_regular :: search_item where
  "item_regular = \<lparr>sh_objectid = 7, sh_type = BTRFS_INODE_ITEM_KEY, sh_transid = 6,
                   stack_inode_generation = 6, stack_inode_size = 10,
                   stack_inode_mode = 33188\<rparr>"

definition no_path :: "nat \<Rightarrow> errno + path" where
  "no_path i = Inl ENOENT"

definition some_path :: "nat \<Rightarrow> errno + path" where
  "some_path i = Inr ''a''"

definition row :: "nat \<Rightarrow> nat \<Rightarrow> nat \<Rightarrow> bool \<Rightarrow> inode" where
  "row v i sz u =
     \<lparr>vol_id = v, ino = i, size' = sz, has_updates = u, mini_hash = None, fiemap_hash = None\<rparr>"


definition tbl_two_volumes :: "inode list" where
  "tbl_two_volumes = [row 1 7 10 True, row 1 8 10 True, row 2 3 100 False]"

definition sess_of :: "inode list \<Rightarrow> inode list \<Rightarrow> session" where
  "sess_of tbl skp =
     \<lparr>inode_table = tbl, skipped = skp, dedup_events = [], ofile_soft = 10, calls = []\<rparr>"

text \<open>A Commonality1 query with the sizes 10 and 5, the same at every page.\<close>

definition comm_of :: "nat \<Rightarrow> inode list \<Rightarrow> commonality" where
  "comm_of sz members =
     \<lparr>comm_size = sz, inode_count = length members, comm_inodes = members\<rparr>"

definition comm_three :: commonality where
  "comm_three = comm_of 10 [row 1 7 10 True, row 1 8 10 False, row 1 9 10 True]"

definition comm_query :: "nat \<Rightarrow> commonality list" where
  "comm_query n = [comm_of 5 [row 1 1 5 True, row 1 2 5 True],
                   comm_of 10 [row 1 7 10 True, row 1 8 10 True]]"

text \<open>
  An environment: the inodes 7, 8 and 9 of volume 1 have the paths a, b and c, which open
  as the descriptors 1, 2 and 3; inode 4 has no path any more; inode 5 is the image of a
  running program; the lookup of inode 6 fails with another errno. All files hold the
  same 10 bytes; cloning into descriptor 2 changes extents, cloning into descriptor 3
  finds them shared already. In the second environment descriptor 3 differs from the
  others byte for byte and every clone changes extents.
\<close>

definition env_sample :: env where
  "env_sample =
     \<lparr>lookup_ino_path_one =
        (\<lambda>v i. if i = 7 then Inr ''a'' else if i = 8 then Inr ''b''
                else if i = 9 then Inr ''c'' else if i = 5 then Inr ''d''
                else if i = 4 then Inl ENOENT else Inl (EOTHER 5)),
      fopenat = (\<lambda>v p. 0),
      fopenat_rw =
        (\<lambda>v p. if p = ''a'' then Inr 1 else if p = ''b'' then Inr 2
                else if p = ''c'' then Inr 3 else Inl ETXTBSY),
      mini_hash_of = (\<lambda>fd. 6),
      fds_in_write_use = (\<lambda>fds. []),
      sha1_digest = (\<lambda>fd. 42),
      fstat_ino = (\<lambda>fd. fd + 6),
      fstat_dev = (\<lambda>fd. 0),
      tell = (\<lambda>fd. 10),
      cmp_files = (\<lambda>s d. True),
      clone_data = (\<lambda>d s. d = 2),
      vol_of = (\<lambda>v. vol_tracked)\<rparr>"

definition env_differ :: env where
  "env_differ = env_sample\<lparr>cmp_files := (\<lambda>s d. d \<noteq> 3), clone_data := (\<lambda>d s. True)\<rparr>"

definition opened_three :: opened where
  "opened_three =
     \<lparr>files = [1, 2, 3],
      fd_inodes = [1 \<mapsto> row 1 7 10 True, 2 \<mapsto> row 1 8 10 False, 3 \<mapsto> row 1 9 10 True],
      fd_names = [1 \<mapsto> ''a'', 2 \<mapsto> ''b'', 3 \<mapsto> ''c'']\<rparr>"


section \<open>Properties of the scanner\<close>

lemma skip_record_spec: "skip_record vol (min_generation_of vol) sh = spec_skip vol sh"
proof (cases "last_tracked_size_cutoff vol")
  case None
  then show ?thesis
    by (simp add: skip_record_def spec_skip_def covered_last_time_def min_generation_of_def)
next
  case (Some s)
  show ?thesis
  proof (cases "s = 0")
    case True
    with Some show ?thesis
      by (auto simp: skip_record_def spec_skip_def covered_last_time_def min_generation_of_def
          less_Suc_eq_le)
  next
    case False
    with Some show ?thesis
      by (auto simp: skip_record_def spec_skip_def covered_last_time_def min_generation_of_def)
  qed
qed

lemma find_SomeD: "find P xs = Some x \<Longrightarrow> P x \<and> x \<in> set xs"
  by (induction xs) (auto split: if_splits)

lemma get_or_create_has_key:
  "\<exists>r\<in>set (fst (get_or_create inodes v i)). same_key v i r"
proof (cases "find (same_key v i) inodes")
  case None
  then show ?thesis
    unfolding get_or_create_def by (simp add: same_key_def fresh_inode_def)
next
  case (Some a)
  then show ?thesis
    unfolding get_or_create_def using find_SomeD [OF Some] by auto
qed

lemma get_or_create_others:
  "filter (\<lambda>r. \<not> same_key v i r) (fst (get_or_create inodes v i))
   = filter (\<lambda>r. \<not> same_key v i r) inodes"
  unfolding get_or_create_def
  by (cases "find (same_key v i) inodes") (auto simp: same_key_def fresh_inode_def)

lemma same_key_size_updates [simp]:
  "same_key v i (r\<lparr>size' := sz, has_updates := b\<rparr>) = same_key v i r"
  by (simp add: same_key_def)

lemma set_size_updates_others:
  "filter (\<lambda>r. \<not> same_key v i r) (set_size_updates v i sz xs)
   = filter (\<lambda>r. \<not> same_key v i r) xs"
  unfolding set_size_updates_def by (induction xs) auto

lemma set_size_updates_key:
  "r \<in> set (set_size_updates v i sz xs) \<Longrightarrow> same_key v i r \<Longrightarrow> has_updates r \<and> size' r = sz"
proof (induction xs)
  case Nil
  then show ?case by (simp add: set_size_updates_def)
next
  case (Cons a xs)
  then show ?case
    unfolding set_size_updates_def by (cases "same_key v i a") auto
qed

lemma set_size_updates_has_key:
  assumes "\<exists>r\<in>set xs. same_key v i r"
  shows "\<exists>r\<in>set (set_size_updates v i sz xs). same_key v i r"
proof -
  from assms obtain r where r: "r \<in> set xs" "same_key v i r" by blast
  then have "r\<lparr>size' := sz, has_updates := True\<rparr> \<in> set (set_size_updates v i sz xs)"
    unfolding set_size_updates_def by force
  moreover have "same_key v i (r\<lparr>size' := sz, has_updates := True\<rparr>)"
    using r(2) by simp
  ultimately show ?thesis by blast
qed

lemma track_item_skip:
  "skip_record vol mg sh \<Longrightarrow> track_item lookup vol mg sh inodes = inodes"
  unfolding track_item_def by simp

lemma track_item_found:
  assumes "sh_type sh = BTRFS_INODE_ITEM_KEY" and "\<not> skip_record vol mg sh"
    and "lookup (sh_objectid sh) = Inr p"
  shows "track_item lookup vol mg sh inodes =
     set_size_updates (id' vol) (sh_objectid sh) (stack_inode_size sh)
       (fst (get_or_create inodes (id' vol) (sh_objectid sh)))"
  using assms unfolding track_item_def Let_def by (simp add: case_prod_beta)

lemma track_item_lost:
  assumes "sh_type sh = BTRFS_INODE_ITEM_KEY" and "\<not> skip_record vol mg sh"
    and "lookup (sh_objectid sh) = Inl e"
  shows "track_item lookup vol mg sh inodes =
     filter (\<lambda>r. \<not> same_key (id' vol) (sh_objectid sh) r) inodes"
  using assms unfolding track_item_def Let_def
  by (simp add: case_prod_beta expunge_inode_def delete_inode_def
      set_size_updates_others get_or_create_others)

text \<open>
  Claim C5, amended. For an INODE_ITEM record the chain of tests of the scanner skips the
  record exactly when the specification says so: size below the cutoff; or, when \<open>S_prev\<close>
  is not null and the size reaches it, generation not above \<open>G_prev\<close>; or, otherwise,
  generation below the minimum generation; or not a regular file. A skipped record leaves
  the Inode table as it was. A record that passes the tests and whose path lookup succeeds
  is upserted: the table then has a row for it, every row for it has the update flag set
  and the size of the record, and all other rows are as before. A record that passes the
  tests and whose path lookup fails is not upserted: afterwards the table has no row for
  it (a row that existed is deleted), and all other rows are as before.
\<close>

theorem scan_record_policy:
  "sh_type sh = BTRFS_INODE_ITEM_KEY \<Longrightarrow>
     (skip_record vol (min_generation_of vol) sh = spec_skip vol sh)
   \<and> (spec_skip vol sh \<longrightarrow>
        track_item lookup vol (min_generation_of vol) sh inodes = inodes)
   \<and> (\<not> spec_skip vol sh \<and> (\<exists>p. lookup (sh_objectid sh) = Inr p) \<longrightarrow>
        (\<exists>r\<in>set (track_item lookup vol (min_generation_of vol) sh inodes).
            same_key (id' vol) (sh_objectid sh) r)
      \<and> (\<forall>r\<in>set (track_item lookup vol (min_generation_of vol) sh inodes).
            same_key (id' vol) (sh_objectid sh) r \<longrightarrow>
            has_updates r \<and> size' r = stack_inode_size sh)
      \<and> filter (\<lambda>r. \<not> same_key (id' vol) (sh_objectid sh) r)
           (track_item lookup vol (min_generation_of vol) sh inodes)
         = filter (\<lambda>r. \<not> same_key (id' vol) (sh_objectid sh) r) inodes)
   \<and> (\<not> spec_skip vol sh \<and> (\<exists>e. lookup (sh_objectid sh) = Inl e) \<longrightarrow>
        track_item lookup vol (min_generation_of vol) sh inodes
        = filter (\<lambda>r. \<not> same_key (id' vol) (sh_objectid sh) r) inodes)"
proof -
  assume t: "sh_type sh = BTRFS_INODE_ITEM_KEY"
  let ?mg = "min_generation_of vol"
  let ?after = "track_item lookup vol ?mg sh inodes"
  let ?key = "same_key (id' vol) (sh_objectid sh)"
  have s: "skip_record vol ?mg sh = spec_skip vol sh"
    by (rule skip_record_spec)
  have a: "spec_skip vol sh \<longrightarrow> ?after = inodes"
    using s by (simp add: track_item_skip)
  have b: "\<not> spec_skip vol sh \<and> (\<exists>p. lookup (sh_objectid sh) = Inr p) \<longrightarrow>
        (\<exists>r\<in>set ?after. ?key r)
      \<and> (\<forall>r\<in>set ?after. ?key r \<longrightarrow> has_updates r \<and> size' r = stack_inode_size sh)
      \<and> filter (\<lambda>r. \<not> ?key r) ?after = filter (\<lambda>r. \<not> ?key r) inodes"
  proof (intro impI, elim conjE exE)
    fix p assume ns: "\<not> spec_skip vol sh" and p: "lookup (sh_objectid sh) = Inr p"
    from ns s have ns': "\<not> skip_record vol ?mg sh" by simp
    have eq: "?after =
        set_size_updates (id' vol) (sh_objectid sh) (stack_inode_size sh)
          (fst (get_or_create inodes (id' vol) (sh_objectid sh)))"
      using t ns' p by (simp add: track_item_found)
    show "(\<exists>r\<in>set ?after. ?key r)
      \<and> (\<forall>r\<in>set ?after. ?key r \<longrightarrow> has_updates r \<and> size' r = stack_inode_size sh)
      \<and> filter (\<lambda>r. \<not> ?key r) ?after = filter (\<lambda>r. \<not> ?key r) inodes"
      unfolding eq
      using set_size_updates_has_key [OF get_or_create_has_key]
      by (simp add: set_size_updates_others get_or_create_others set_size_updates_key)
  qed
  have c: "\<not> spec_skip vol sh \<and> (\<exists>e. lookup (sh_objectid sh) = Inl e) \<longrightarrow>
        ?after = filter (\<lambda>r. \<not> ?key r) inodes"
  proof (intro impI, elim conjE exE)
    fix e assume ns: "\<not> spec_skip vol sh" and e: "lookup (sh_objectid sh) = Inl e"
    from ns s have ns': "\<not> skip_record vol ?mg sh" by simp
    show "?after = filter (\<lambda>r. \<not> ?key r) inodes"
      using t ns' e by (simp add: track_item_lost)
  qed
  from s a b c show ?thesis by blast
qed

text \<open>
  The 10-byte file changed in generation 6, on the volume never scanned: with a path it is
  upserted over the row that was there and the other row stays.
\<close>

theorem scan_record_policy_witness:
  "sh_type item_regular = BTRFS_INODE_ITEM_KEY
   \<and> \<not> spec_skip vol_new item_regular
   \<and> some_path (sh_objectid item_regular) = Inr ''a''
   \<and> filter (\<lambda>r. \<not> same_key 1 7 r)
        (track_item some_path vol_new (min_generation_of vol_new) item_regular
           [row 1 7 9 False, row 1 8 9 False])
      = [row 1 8 9 False]
   \<and> track_item some_path vol_new (min_generation_of vol_new) item_regular
        [row 1 7 9 False, row 1 8 9 False]
      = [row 1 7 10 True, row 1 8 9 False]"
  using scan_record_policy [where sh = item_regular and vol = vol_new and lookup = some_path
      and inodes = "[row 1 7 9 False, row 1 8 9 False]"]
  by (simp add: item_regular_def vol_new_def some_path_def spec_skip_def S_ISREG_def
      min_generation_of_def row_def same_key_def track_item_def skip_record_def
      covered_last_time_def get_or_create_def set_size_updates_def)

text \<open>
  The claim as it was stated fails where the path lookup fails: the same record passes every
  test, and yet the row it had is gone afterwards instead of being updated.
\<close>

theorem scan_record_lookup_counterexample:
  "sh_type item_regular = BTRFS_INODE_ITEM_KEY
   \<and> \<not> spec_skip vol_new item_regular
   \<and> track_item no_path vol_new (min_generation_of vol_new) item_regular [row 1 7 9 False] = []"
  by (simp add: item_regular_def vol_new_def no_path_def spec_skip_def S_ISREG_def
      min_generation_of_def row_def same_key_def track_item_def skip_record_def
      covered_last_time_def get_or_create_def set_size_updates_def delete_inode_def
      expunge_inode_def)

text \<open>
  Claim C4. With \<open>S_prev\<close> the last tracked size cutoff, \<open>G_prev\<close> the last tracked
  generation and \<open>S_cur\<close> the size cutoff of the volume, the minimum generation of a scan
  is \<open>G_prev + 1\<close> when \<open>S_prev\<close> is not null and \<open>S_prev \<le> S_cur\<close>, and \<open>0\<close> otherwise.
  When it exceeds the root generation of the volume, the scan returns with the volume row
  and every Inode row as they were, whatever the kernel would have answered.
\<close>

theorem watermark_and_noop:
  "min_generation_of vol =
     (if last_tracked_size_cutoff vol \<noteq> None
         \<and> the (last_tracked_size_cutoff vol) \<le> size_cutoff vol
      then last_tracked_generation vol + 1 else 0)
   \<and> (min_generation_of vol > top_generation \<longrightarrow>
        track_updated_files lookup top_generation replies (vol, inodes) = Inr (vol, inodes))"
proof
  show "min_generation_of vol =
     (if last_tracked_size_cutoff vol \<noteq> None
         \<and> the (last_tracked_size_cutoff vol) \<le> size_cutoff vol
      then last_tracked_generation vol + 1 else 0)"
    by (cases "last_tracked_size_cutoff vol") (simp_all add: min_generation_of_def)
  show "min_generation_of vol > top_generation \<longrightarrow>
        track_updated_files lookup top_generation replies (vol, inodes) = Inr (vol, inodes)"
    by (simp add: track_updated_files_def)
qed

text \<open>
  The volume scanned up to generation 5 at an unchanged cutoff, with the root generation
  still 5: the minimum generation is 6 and the record the kernel holds ready is not looked at.
\<close>

theorem watermark_and_noop_witness:
  "min_generation_of vol_tracked = 6
   \<and> 5 < min_generation_of vol_tracked
   \<and> track_updated_files some_path 5 [Inr [item_regular]] (vol_tracked, [row 1 7 9 False])
     = Inr (vol_tracked, [row 1 7 9 False])"
  using watermark_and_noop [where vol = vol_tracked and top_generation = 5
      and lookup = some_path and replies = "[Inr [item_regular]]"
      and inodes = "[row 1 7 9 False]"]
  by (simp add: vol_tracked_def)

lemma track_updated_files_skipped:
  "top_generation < min_generation_of vol \<Longrightarrow>
   track_updated_files lookup top_generation replies (vol, inodes) = Inr (vol, inodes)"
  by (simp add: track_updated_files_def)

lemma track_updated_files_completed:
  assumes "\<not> top_generation < min_generation_of vol"
    and "track_updated_files lookup top_generation replies (vol, inodes) = Inr (vol', inodes')"
  shows "vol' = vol\<lparr>last_tracked_generation := top_generation,
                    last_tracked_size_cutoff := Some (size_cutoff vol)\<rparr>"
  using assms unfolding track_updated_files_def Let_def
  by (simp split: sum.splits)

lemma min_generation_le: "min_generation_of vol \<le> last_tracked_generation vol + 1"
  by (cases "last_tracked_size_cutoff vol") (simp_all add: min_generation_of_def)

lemma track_updated_files_generation:
  assumes r: "track_updated_files lookup top_generation replies (vol, inodes) = Inr (vol', inodes')"
    and g: "last_tracked_generation vol \<le> top_generation"
  shows "last_tracked_generation vol \<le> last_tracked_generation vol'
       \<and> last_tracked_generation vol' \<le> top_generation"
proof (cases "top_generation < min_generation_of vol")
  case True
  with r have "vol' = vol" by (simp add: track_updated_files_skipped)
  with g show ?thesis by simp
next
  case False
  from track_updated_files_completed [OF False r] g show ?thesis by simp
qed

lemma scan_runs_monotone:
  "scan_runs lookup runs db = Inr dbs \<Longrightarrow> sorted (map top_of_run runs) \<Longrightarrow>
   \<forall>run\<in>set runs. tracked_generation db \<le> top_of_run run \<Longrightarrow>
   sorted (tracked_generation db # map tracked_generation dbs)"
proof (induction runs arbitrary: db dbs)
  case Nil
  then show ?case by simp
next
  case (Cons run runs)
  obtain cutoff top_generation replies where run: "run = (cutoff, top_generation, replies)"
    by (cases run) auto
  let ?vol = "get_vol_cutoff cutoff (fst db)"
  from Cons.prems(1) run obtain db' dbs' where
    t: "track_updated_files lookup top_generation replies (?vol, snd db) = Inr db'"
    and rest: "scan_runs lookup runs db' = Inr dbs'" and dbs: "dbs = db' # dbs'"
    by (auto split: sum.splits)
  have gv: "last_tracked_generation ?vol = tracked_generation db"
    by (cases cutoff) (simp_all add: get_vol_cutoff_def tracked_generation_def)
  from Cons.prems(3) run have le: "tracked_generation db \<le> top_generation"
    by (simp add: top_of_run_def)
  from t have t': "track_updated_files lookup top_generation replies (?vol, snd db) = Inr (fst db', snd db')"
    by simp
  from track_updated_files_generation [OF t'] gv le
  have step: "tracked_generation db \<le> tracked_generation db'"
    and bound: "tracked_generation db' \<le> top_generation"
    by (simp_all add: tracked_generation_def)
  have tr: "top_of_run run = top_generation"
    by (simp add: run top_of_run_def)
  from Cons.prems(2) have srt: "sorted (map top_of_run runs)"
    and later': "\<forall>r\<in>set runs. top_of_run run \<le> top_of_run r"
    by simp_all
  from later' tr have later: "\<forall>r\<in>set runs. top_generation \<le> top_of_run r"
    by simp
  from later bound have "\<forall>r\<in>set runs. tracked_generation db' \<le> top_of_run r"
    by auto
  from Cons.IH [OF rest srt this] step dbs show ?case by auto
qed

text \<open>
  Claim C9, amended. A scan that returns without error and was not skipped (its minimum
  generation does not exceed the root generation read at its start) leaves
  \<open>last_tracked_generation\<close> at that root generation and \<open>last_tracked_size_cutoff\<close> at the
  current size cutoff. A skipped scan returns the volume row unchanged. Either way, when
  the root generation read at the start is not below the stored watermark, the watermark
  does not decrease and ends at that root generation. Hence, over successive scans that
  all return, with root generations that never decrease and start at or above the stored
  watermark, the watermark never decreases, whatever cutoffs the scans are run with.
\<close>

theorem completed_scan_watermark:
  "(track_updated_files lookup top_generation replies (vol, inodes) = Inr (vol', inodes') \<longrightarrow>
      (min_generation_of vol \<le> top_generation \<longrightarrow>
         last_tracked_generation vol' = top_generation
         \<and> last_tracked_size_cutoff vol' = Some (size_cutoff vol))
    \<and> (top_generation < min_generation_of vol \<longrightarrow> vol' = vol)
    \<and> (last_tracked_generation vol \<le> top_generation \<longrightarrow>
         last_tracked_generation vol \<le> last_tracked_generation vol'
         \<and> last_tracked_generation vol' = top_generation))
   \<and> (scan_runs lookup runs db = Inr dbs \<and> sorted (map top_of_run runs)
      \<and> (\<forall>run\<in>set runs. tracked_generation db \<le> top_of_run run) \<longrightarrow>
        sorted (tracked_generation db # map tracked_generation dbs))"
proof (intro conjI impI)
  assume r: "track_updated_files lookup top_generation replies (vol, inodes) = Inr (vol', inodes')"
  {
    assume "min_generation_of vol \<le> top_generation"
    then have n: "\<not> top_generation < min_generation_of vol" by simp
    from track_updated_files_completed [OF n r]
    show "last_tracked_generation vol' = top_generation" by simp
    from track_updated_files_completed [OF n r]
    show "last_tracked_size_cutoff vol' = Some (size_cutoff vol)" by simp
  }
  {
    assume "top_generation < min_generation_of vol"
    with r show "vol' = vol" by (simp add: track_updated_files_skipped)
  }
  {
    assume g: "last_tracked_generation vol \<le> top_generation"
    from track_updated_files_generation [OF r g]
    show "last_tracked_generation vol \<le> last_tracked_generation vol'" by simp
    show "last_tracked_generation vol' = top_generation"
    proof (cases "top_generation < min_generation_of vol")
      case True
      with r have "vol' = vol" by (simp add: track_updated_files_skipped)
      moreover from True min_generation_le [of vol] g have "last_tracked_generation vol = top_generation"
        by simp
      ultimately show ?thesis by simp
    next
      case False
      from track_updated_files_completed [OF False r] show ?thesis by simp
    qed
  }
next
  assume "scan_runs lookup runs db = Inr dbs \<and> sorted (map top_of_run runs)
      \<and> (\<forall>run\<in>set runs. tracked_generation db \<le> top_of_run run)"
  then show "sorted (tracked_generation db # map tracked_generation dbs)"
    using scan_runs_monotone by blast
qed

text \<open>
  Two scans of the volume tracked up to generation 5: one at root generation 9 with the
  cutoff unchanged, one at root generation 12 with the cutoff lowered to 4.
\<close>

theorem completed_scan_watermark_witness:
  "track_updated_files some_path 9 [Inr [item_regular]] (vol_tracked, [])
     = Inr (vol_tracked\<lparr>last_tracked_generation := 9\<rparr>, [row 1 7 10 True])
   \<and> min_generation_of vol_tracked \<le> 9
   \<and> last_tracked_generation vol_tracked \<le> 9
   \<and> scan_runs some_path [(None, 9, [Inr [item_regular]]), (Some 4, 12, [])] (vol_tracked, [])
     = Inr [(vol_tracked\<lparr>last_tracked_generation := 9\<rparr>, [row 1 7 10 True]),
            (vol_tracked\<lparr>size_cutoff := 4, last_tracked_generation := 12,
                          last_tracked_size_cutoff := Some 4\<rparr>, [row 1 7 10 True])]
   \<and> sorted (map top_of_run [(None, 9, [Inr [item_regular]]), (Some 4, 12, [])])
   \<and> sorted (tracked_generation (vol_tracked, [])
        # map tracked_generation
            [(vol_tracked\<lparr>last_tracked_generation := 9\<rparr>, [row 1 7 10 True]),
             (vol_tracked\<lparr>size_cutoff := 4, last_tracked_generation := 12,
                           last_tracked_size_cutoff := Some 4\<rparr>, [row 1 7 10 True])])"
  using completed_scan_watermark [where lookup = some_path and top_generation = 9
      and replies = "[Inr [item_regular]]" and vol = vol_tracked and inodes = "[]"
      and vol' = "vol_tracked\<lparr>last_tracked_generation := 9\<rparr>"
      and inodes' = "[row 1 7 10 True]"
      and runs = "[(None, 9, [Inr [item_regular]]), (Some 4, 12, [])]"
      and db = "(vol_tracked, [])"
      and dbs = "[(vol_tracked\<lparr>last_tracked_generation := 9\<rparr>, [row 1 7 10 True]),
            (vol_tracked\<lparr>size_cutoff := 4, last_tracked_generation := 12,
                          last_tracked_size_cutoff := Some 4\<rparr>, [row 1 7 10 True])]"]
  by (simp add: item_regular_def vol_tracked_def some_path_def S_ISREG_def
      min_generation_of_def row_def same_key_def track_item_def skip_record_def
      covered_last_time_def get_or_create_def set_size_updates_def fresh_inode_def
      track_updated_files_def get_vol_cutoff_def top_of_run_def tracked_generation_def)

text \<open>
  The claim as it was stated fails for a scan that is skipped after the cutoff was raised:
  the call returns without error, and \<open>last_tracked_size_cutoff\<close> is still 8 while the
  current cutoff is 16.
\<close>

theorem skipped_scan_cutoff_counterexample:
  "track_updated_files some_path 5 [Inr [item_regular]] (vol_raised, [row 1 7 9 False])
     = Inr (vol_raised, [row 1 7 9 False])
   \<and> last_tracked_size_cutoff vol_raised = Some 8
   \<and> size_cutoff vol_raised = 16"
  by (simp add: vol_raised_def track_updated_files_def min_generation_of_def)


section \<open>Properties of the grouper\<close>

lemma same_key_has_updates [simp]:
  "same_key v i (r\<lparr>has_updates := b\<rparr>) = same_key v i r"
  by (simp add: same_key_def)

lemma is_skipped_has_updates [simp]:
  "is_skipped skp (r\<lparr>has_updates := b\<rparr>) = is_skipped skp r"
  by (simp add: is_skipped_def)




lemma sorted_le_last: "sorted xs \<Longrightarrow> x \<in> set xs \<Longrightarrow> x \<le> last xs"
  by (induction xs) auto

lemma query_page_le:
  "el \<in> set (query_page rows window_start per) \<Longrightarrow> int (comm_size el) \<le> window_start"
  unfolding query_page_def by (auto dest: in_set_takeD)

lemma query_page_ge_last:
  assumes "el \<in> set (query_page rows window_start per)"
  shows "int (comm_size (last (query_page rows window_start per))) \<le> int (comm_size el)"
proof -
  let ?f = "\<lambda>el. - int (comm_size el)"
  let ?li = "query_page rows window_start per"
  from assms have ne: "?li \<noteq> []" by auto
  have "sorted (map ?f ?li)"
    unfolding query_page_def by (simp add: take_map [symmetric] sorted_wrt_take)
  moreover from assms have "?f el \<in> set (map ?f ?li)" by simp
  ultimately have "?f el \<le> last (map ?f ?li)" by (rule sorted_le_last)
  with ne show ?thesis by (simp add: last_map)
qed

lemma windowed_query_empty:
  "query_page (query n) window_start per = [] \<Longrightarrow>
   windowed_query window_start query n per = [Clear_updates window_start 0]"
  by (subst windowed_query.simps) simp

lemma windowed_query_page:
  "query_page (query n) window_start per \<noteq> [] \<Longrightarrow>
   windowed_query window_start query n per =
     map Yield (query_page (query n) window_start per)
     @ [Clear_updates window_start
          (int (comm_size (last (query_page (query n) window_start per))))]
     @ windowed_query
         (int (comm_size (last (query_page (query n) window_start per))) - 1) query (Suc n) per"
  by (subst windowed_query.simps) (simp add: Let_def)

lemma clear_calls_append: "clear_calls (xs @ ys) = clear_calls xs @ clear_calls ys"
  by (induction xs rule: clear_calls.induct) simp_all

lemma clear_calls_yields: "clear_calls (map Yield li) = []"
  by (induction li) simp_all

lemma pages_in_range_yields:
  "pages_in_range (map Yield li @ es) page = pages_in_range es (page @ li)"
  by (induction li arbitrary: page) simp_all

lemma windowed_query_nonempty: "windowed_query window_start query n per \<noteq> []"
  by (cases "query_page (query n) window_start per = []")
    (simp_all add: windowed_query_empty windowed_query_page)

lemma windowed_query_ranges:
  "contiguous_from window_start (clear_calls (windowed_query window_start query n per))
   \<and> (\<forall>s. covering s (clear_calls (windowed_query window_start query n per))
          = (if 0 \<le> s \<and> s \<le> window_start then 1 else 0))
   \<and> pages_in_range (windowed_query window_start query n per) []
   \<and> (\<exists>ws. last (windowed_query window_start query n per) = Clear_updates ws 0)"
proof (induction window_start query n per rule: windowed_query.induct)
  case (1 window_start query n per)
  let ?li = "query_page (query n) window_start per"
  show ?case
  proof (cases "?li = []")
    case True
    then show ?thesis
      by (simp add: windowed_query_empty covering_def)
  next
    case False
    let ?we = "int (comm_size (last ?li))"
    let ?rest = "windowed_query (?we - 1) query (Suc n) per"
    have eq: "windowed_query window_start query n per
        = map Yield ?li @ [Clear_updates window_start ?we] @ ?rest"
      using False by (rule windowed_query_page)
    have calls: "clear_calls (windowed_query window_start query n per)
        = (window_start, ?we) # clear_calls ?rest"
      unfolding eq by (simp add: clear_calls_append clear_calls_yields)
    from False have "last ?li \<in> set ?li" by simp
    then have we_le: "?we \<le> window_start" by (rule query_page_le)
    have we_ge: "0 \<le> ?we" by simp
    have IH: "contiguous_from (?we - 1) (clear_calls ?rest)
       \<and> (\<forall>s. covering s (clear_calls ?rest) = (if 0 \<le> s \<and> s \<le> ?we - 1 then 1 else 0))
       \<and> pages_in_range ?rest []
       \<and> (\<exists>ws. last ?rest = Clear_updates ws 0)"
      using "1.IH" [OF refl False refl] .
    have ne: "clear_calls ?rest \<noteq> []"
      using IH by (cases "clear_calls ?rest") simp_all
    have c1: "contiguous_from window_start (clear_calls (windowed_query window_start query n per))"
      unfolding calls using IH we_le ne by (cases "clear_calls ?rest") simp_all
    have c2: "\<forall>s. covering s (clear_calls (windowed_query window_start query n per))
          = (if 0 \<le> s \<and> s \<le> window_start then 1 else 0)"
    proof
      fix s
      have "covering s ((window_start, ?we) # clear_calls ?rest)
          = (if ?we \<le> s \<and> s \<le> window_start then 1 else 0) + covering s (clear_calls ?rest)"
        by (simp add: covering_def)
      also have "\<dots> = (if ?we \<le> s \<and> s \<le> window_start then 1 else 0)
          + (if 0 \<le> s \<and> s \<le> ?we - 1 then 1 else 0)"
        using IH by simp
      also have "\<dots> = (if 0 \<le> s \<and> s \<le> window_start then 1 else 0)"
        using we_le we_ge by auto
      finally show "covering s (clear_calls (windowed_query window_start query n per))
          = (if 0 \<le> s \<and> s \<le> window_start then 1 else 0)"
        unfolding calls .
    qed
    have "list_all (\<lambda>el. ?we \<le> int (comm_size el) \<and> int (comm_size el) \<le> window_start) ?li"
      unfolding list_all_iff using query_page_le query_page_ge_last by blast
    then have c3: "pages_in_range (windowed_query window_start query n per) []"
      unfolding eq using IH False windowed_query_nonempty [of "?we - 1" query "Suc n" per]
      by (simp add: pages_in_range_yields)
    have c4: "\<exists>ws. last (windowed_query window_start query n per) = Clear_updates ws 0"
      unfolding eq using IH windowed_query_nonempty [of "?we - 1" query "Suc n" per]
      by simp
    from c1 c2 c3 c4 show ?thesis by blast
  qed
qed

text \<open>
  Claim C10. The generator is total: its definition above comes with the proof that every
  run ends, since each page that is not empty moves the window start strictly down and no
  size is negative. For every run from a window start \<open>W\<close>: the calls of
  \<^verbatim>\<open>clear_updates\<close> have ranges that follow one another, the first starting at \<open>W\<close>, each
  next one starting one below the end of the one before, the last one ending at 0; every
  size from 0 to \<open>W\<close> is in the range of exactly one call and no other size is in any;
  each page that is not empty is followed by the call from the window start to the size
  of its last element, whose range holds all its elements, and the run goes on; the call
  after the empty page ends at 0 and is the last thing the run does.
\<close>

theorem windowed_query_covers:
  "contiguous_from W (clear_calls (windowed_query W query n per))
   \<and> (\<forall>s. 0 \<le> s \<and> s \<le> W \<longrightarrow> covering s (clear_calls (windowed_query W query n per)) = 1)
   \<and> (\<forall>s. \<not> (0 \<le> s \<and> s \<le> W) \<longrightarrow> covering s (clear_calls (windowed_query W query n per)) = 0)
   \<and> pages_in_range (windowed_query W query n per) []
   \<and> (\<exists>ws. last (windowed_query W query n per) = Clear_updates ws 0)"
  using windowed_query_ranges [of W query n per] by simp

text \<open>
  Pages of one row over the sizes 10 and 5, from the window start 100: the calls are
  \<open>(100, 10)\<close>, \<open>(9, 5)\<close> and \<open>(4, 0)\<close>, and the size 7 is in the second one only.
\<close>

theorem windowed_query_covers_witness:
  "(0::int) \<le> 7 \<and> (7::int) \<le> 100
   \<and> covering 7 (clear_calls (windowed_query 100 comm_query 0 1)) = 1
   \<and> clear_calls (windowed_query 100 comm_query 0 1) = [(100, 10), (9, 5), (4, 0)]"
proof -
  have p1: "query_page (comm_query 0) 100 (Suc 0) = [comm_of 10 [row 1 7 10 True, row 1 8 10 True]]"
    by (simp add: query_page_def comm_query_def comm_of_def)
  have p2: "query_page (comm_query (Suc 0)) 9 (Suc 0) = [comm_of 5 [row 1 1 5 True, row 1 2 5 True]]"
    by (simp add: query_page_def comm_query_def comm_of_def)
  have p3: "query_page (comm_query (Suc (Suc 0))) 4 (Suc 0) = []"
    by (simp add: query_page_def comm_query_def comm_of_def)
  have c: "clear_calls (windowed_query 100 comm_query 0 (Suc 0)) = [(100, 10), (9, 5), (4, 0)]"
    by (simp add: windowed_query_page windowed_query_empty p1 p2 p3 clear_calls_append
        clear_calls_yields comm_of_def)
  from windowed_query_covers [where W = 100 and query = comm_query and n = 0 and per = 1]
  have "covering 7 (clear_calls (windowed_query 100 comm_query 0 1)) = 1"
    by simp
  with c show ?thesis by simp
qed

lemma sort_key_hd_least:
  assumes "sort_key f xs = r # rs"
  shows "r \<in> set xs \<and> (\<forall>x\<in>set xs. f r \<le> f x)"
proof -
  have "set (sort_key f xs) = set xs" by simp
  with assms have mem: "set xs = insert r (set rs)" by simp
  have "sorted (map f (sort_key f xs))" by simp
  with assms have "\<forall>x\<in>set rs. f r \<le> f x" by simp
  with mem show ?thesis by auto
qed

lemma first_window_start_max:
  assumes "tbl \<noteq> []"
  shows "first_window_start tbl = Inr (max_size tbl)"
proof -
  let ?f = "\<lambda>r. - int (size' r)"
  have "set (sort_key ?f tbl) = set tbl" by simp
  with assms have "sort_key ?f tbl \<noteq> []" by (metis set_empty)
  then obtain r rs where s: "sort_key ?f tbl = r # rs"
    by (cases "sort_key ?f tbl") auto
  from sort_key_hd_least [OF s] have r: "r \<in> set tbl" and le: "\<forall>x\<in>set tbl. size' x \<le> size' r"
    by auto
  have "Max (set (map (\<lambda>r. int (size' r)) tbl)) = int (size' r)"
  proof (rule Max_eqI)
    show "finite (set (map (\<lambda>r. int (size' r)) tbl))" by simp
    show "\<And>y. y \<in> set (map (\<lambda>r. int (size' r)) tbl) \<Longrightarrow> y \<le> int (size' r)"
      using le by auto
    show "int (size' r) \<in> set (map (\<lambda>r. int (size' r)) tbl)"
      using r by auto
  qed
  then show ?thesis
    unfolding first_window_start_def max_size_def s by simp
qed

lemma max_size_ge: "r \<in> set rows \<Longrightarrow> int (size' r) \<le> max_size rows"
  unfolding max_size_def by (rule Max_ge) auto

text \<open>
  Claim C2, amended. When the Inode table is not empty, the first window start is the
  largest size over all rows of the table, of whatever volume; when moreover the
  Commonality1 query has a row, the windowed traversal is started from it. It is at least
  the size of every inode of the given volume set, so the windows reach all of them.
\<close>

theorem window_start_is_table_max:
  "(tbl \<noteq> [] \<longrightarrow> first_window_start tbl = Inr (max_size tbl))
   \<and> (query 0 \<noteq> [] \<and> tbl \<noteq> [] \<longrightarrow>
        dedup_tracked_query query tbl
        = Inr (windowed_query (max_size tbl) query 0 WINDOW_SIZE))
   \<and> (\<forall>r\<in>set (inodes_of_volumes vol_ids tbl). int (size' r) \<le> max_size tbl)"
proof (intro conjI impI ballI)
  assume "tbl \<noteq> []"
  then show "first_window_start tbl = Inr (max_size tbl)"
    by (rule first_window_start_max)
next
  assume "query 0 \<noteq> [] \<and> tbl \<noteq> []"
  then show "dedup_tracked_query query tbl
        = Inr (windowed_query (max_size tbl) query 0 WINDOW_SIZE)"
    unfolding dedup_tracked_query_def Let_def by (simp add: first_window_start_max)
next
  fix r assume "r \<in> set (inodes_of_volumes vol_ids tbl)"
  then have "r \<in> set tbl" by (simp add: inodes_of_volumes_def)
  then show "int (size' r) \<le> max_size tbl" by (rule max_size_ge)
qed

text \<open>Two inodes of 10 bytes in volume 1, one of 100 bytes in volume 2, the volume set 1.\<close>

theorem window_start_is_table_max_witness:
  "tbl_two_volumes \<noteq> [] \<and> comm_query 0 \<noteq> []
   \<and> first_window_start tbl_two_volumes = Inr (max_size tbl_two_volumes)
   \<and> max_size tbl_two_volumes = 100
   \<and> dedup_tracked_query comm_query tbl_two_volumes
     = Inr (windowed_query 100 comm_query 0 WINDOW_SIZE)"
proof -
  have m: "max_size tbl_two_volumes = 100"
    by (simp add: max_size_def tbl_two_volumes_def row_def)
  have n: "tbl_two_volumes \<noteq> []" "comm_query 0 \<noteq> []"
    by (simp_all add: tbl_two_volumes_def comm_query_def)
  from window_start_is_table_max [where tbl = tbl_two_volumes and query = comm_query
      and vol_ids = "[1]"] n m
  show ?thesis by simp
qed

text \<open>
  The claim as it was stated fails when another volume holds a larger file: the first
  window start is 100, the largest size in the volume set is 10.
\<close>

theorem window_start_other_volume_counterexample:
  "first_window_start tbl_two_volumes = Inr 100
   \<and> max_size (inodes_of_volumes [1] tbl_two_volumes) = 10"
  by (simp add: first_window_start_def max_size_def inodes_of_volumes_def
      tbl_two_volumes_def row_def)


section \<open>Properties of the deduper\<close>

lemma session_simps [simp]:
  "ofile_soft (sess_delete i st) = ofile_soft st"
  "ofile_soft (skipped_append i st) = ofile_soft st"
  "ofile_soft (issue c st) = ofile_soft st"
  "calls (sess_delete i st) = calls st"
  "calls (skipped_append i st) = calls st"
  "calls (issue c st) = calls st @ [c]"
  "skipped (sess_delete i st) = skipped st"
  "skipped (skipped_append i st) = skipped st @ [i]"
  "skipped (issue c st) = skipped st"
  "inode_table (sess_delete i st) = delete_inode (vol_id i) (ino i) (inode_table st)"
  "inode_table (skipped_append i st) = inode_table st"
  "inode_table (issue c st) = inode_table st"
  "dedup_events (sess_delete i st) = dedup_events st"
  "dedup_events (skipped_append i st) = dedup_events st"
  "dedup_events (issue c st) = dedup_events st"
  by (simp_all add: sess_delete_def skipped_append_def issue_def)

text \<open>Mini hashes.\<close>

lemma mini_hash_from_file_simps [simp]:
  "calls (mini_hash_from_file env i f st) = calls st @ [mini_hash_call i]"
  "inode_table (mini_hash_from_file env i f st) =
     map (\<lambda>r. if same_key (vol_id i) (ino i) r
               then r\<lparr>mini_hash := Some (mini_hash_of env f)\<rparr> else r) (inode_table st)"
  by (simp_all add: mini_hash_from_file_def mini_hash_call_def)


text \<open>The open loop.\<close>

lemma open_inodes_step:
  "open_inodes env (inode # rest) (st, opn) =
     (case open_outcome env inode of
        Dropped \<Rightarrow> open_inodes env rest (sess_delete inode st, opn)
      | Skipped p \<Rightarrow>
          open_inodes env rest
            (skipped_append inode (issue (Fopenat_rw (vol_id inode) p) st), opn)
      | Opened p fd \<Rightarrow>
          open_inodes env rest
            (issue (Fopenat_rw (vol_id inode) p) st,
             opn\<lparr>files := files opn @ [fd],
                 fd_inodes := (fd_inodes opn)(fd \<mapsto> inode),
                 fd_names := (fd_names opn)(fd \<mapsto> p)\<rparr>)
      | Fatal e \<Rightarrow> Inl (IOError e))"
proof (cases "lookup_ino_path_one env (vol_id inode) (ino inode)")
  case (Inl e)
  then show ?thesis by (simp add: open_outcome_def)
next
  case (Inr p)
  then show ?thesis
    by (cases "fopenat_rw env (vol_id inode) p") (auto simp: open_outcome_def Let_def)
qed

declare open_inodes.simps(2) [simp del]

lemma open_inodes_fatal:
  "\<exists>i\<in>set inodes. is_fatal env i \<Longrightarrow> \<exists>e. open_inodes env inodes (st, opn) = Inl (IOError e)"
proof (induction inodes arbitrary: st opn)
  case Nil
  then show ?case by simp
next
  case (Cons i rest)
  show ?case
  proof (cases "open_outcome env i")
    case Dropped
    with Cons.prems have "\<exists>i\<in>set rest. is_fatal env i" by (auto simp: is_fatal_def)
    from Cons.IH [OF this] Dropped show ?thesis by (simp add: open_inodes_step)
  next
    case (Skipped p)
    with Cons.prems have "\<exists>i\<in>set rest. is_fatal env i" by (auto simp: is_fatal_def)
    from Cons.IH [OF this] Skipped show ?thesis by (simp add: open_inodes_step)
  next
    case (Opened p fd)
    with Cons.prems have "\<exists>i\<in>set rest. is_fatal env i" by (auto simp: is_fatal_def)
    from Cons.IH [OF this] Opened show ?thesis by (simp add: open_inodes_step)
  next
    case (Fatal e)
    then show ?thesis by (simp add: open_inodes_step)
  qed
qed

lemma open_inodes_ok:
  "\<forall>i\<in>set inodes. \<not> is_fatal env i \<Longrightarrow>
   \<exists>st' opn'. open_inodes env inodes (st, opn) = Inr (st', opn')
     \<and> skipped st' = skipped st @ filter (is_skipped_open env) inodes
     \<and> files opn' = files opn @ opened_fds env inodes
     \<and> inode_table st' = filter (\<lambda>r. \<not> dropped_row env inodes r) (inode_table st)
     \<and> ofile_soft st' = ofile_soft st
     \<and> dedup_events st' = dedup_events st"
proof (induction inodes arbitrary: st opn)
  case Nil
  then show ?case by (simp add: opened_fds_def dropped_row_def)
next
  case (Cons i rest)
  from Cons.prems have nf: "\<forall>i\<in>set rest. \<not> is_fatal env i" by simp
  show ?case
  proof (cases "open_outcome env i")
    case Dropped
    from Cons.IH [OF nf, of "sess_delete i st" opn] Dropped show ?thesis
      by (auto simp: open_inodes_step is_skipped_open_def opened_fds_def dropped_row_def
          is_dropped_def delete_inode_def)
  next
    case (Skipped p)
    from Cons.IH [OF nf, of "skipped_append i (issue (Fopenat_rw (vol_id i) p) st)" opn] Skipped
    show ?thesis
      by (auto simp: open_inodes_step is_skipped_open_def opened_fds_def dropped_row_def
          is_dropped_def)
  next
    case (Opened p fd)
    from Cons.IH [OF nf, of "issue (Fopenat_rw (vol_id i) p) st"
        "opn\<lparr>files := files opn @ [fd], fd_inodes := (fd_inodes opn)(fd \<mapsto> i),
             fd_names := (fd_names opn)(fd \<mapsto> p)\<rparr>"] Opened
    show ?thesis
      by (auto simp: open_inodes_step is_skipped_open_def opened_fds_def dropped_row_def
          is_dropped_def)
  next
    case (Fatal e)
    with Cons.prems show ?thesis by (simp add: is_fatal_def)
  qed
qed

lemma open_inodes_Inr:
  assumes "open_inodes env inodes (st, opn) = Inr (st', opn')"
  shows "skipped st' = skipped st @ filter (is_skipped_open env) inodes
     \<and> files opn' = files opn @ opened_fds env inodes
     \<and> inode_table st' = filter (\<lambda>r. \<not> dropped_row env inodes r) (inode_table st)
     \<and> ofile_soft st' = ofile_soft st
     \<and> dedup_events st' = dedup_events st"
proof -
  have "\<forall>i\<in>set inodes. \<not> is_fatal env i"
  proof (rule ccontr)
    assume "\<not> (\<forall>i\<in>set inodes. \<not> is_fatal env i)"
    then have "\<exists>i\<in>set inodes. is_fatal env i" by simp
    from open_inodes_fatal [OF this, of st opn] assms show False by auto
  qed
  from open_inodes_ok [OF this, of st opn] assms show ?thesis by auto
qed

text \<open>Hashing and cloning leave the descriptor limit alone.\<close>

lemma hash_files_soft:
  "hash_files env cohort opn in_use fds (st, by_hash) = Inr (st', by_hash') \<Longrightarrow>
   ofile_soft st' = ofile_soft st"
proof (induction fds arbitrary: st by_hash)
  case Nil
  then show ?case by simp
next
  case (Cons fd rest)
  from Cons.prems obtain inode where i: "fd_inodes opn fd = Some inode"
    by (cases "fd_inodes opn fd") simp_all
  from Cons.prems i obtain st1 bh1 where
    r: "hash_files env cohort opn in_use rest (st1, bh1) = Inr (st', by_hash')"
    and s: "ofile_soft st1 = ofile_soft st"
    by (auto split: if_splits)
  from Cons.IH [OF r] s show ?case by simp
qed

lemma clone_dfiles_equal:
  "all_equal_to env sfile dfiles \<Longrightarrow>
   clone_dfiles env sfile dfiles (st, acc) =
     Inr (st\<lparr>calls := calls st @ map (\<lambda>d. Clone_data d sfile) dfiles\<rparr>,
          acc @ cloned_from env sfile dfiles)"
proof (induction dfiles arbitrary: st acc)
  case Nil
  then show ?case by (simp add: cloned_from_def)
next
  case (Cons d rest)
  from Cons.prems have c: "cmp_files env sfile d" and r: "all_equal_to env sfile rest"
    by (simp_all add: all_equal_to_def)
  show ?case
    using c Cons.IH [OF r] by (simp add: cloned_from_def issue_def)
qed

lemma clone_dfiles_differ:
  "\<not> all_equal_to env sfile dfiles \<Longrightarrow>
   clone_dfiles env sfile dfiles (st, acc) = Inl AssertionError"
proof (induction dfiles arbitrary: st acc)
  case Nil
  then show ?case by (simp add: all_equal_to_def)
next
  case (Cons d rest)
  show ?case
  proof (cases "cmp_files env sfile d")
    case True
    with Cons.prems have "\<not> all_equal_to env sfile rest" by (simp add: all_equal_to_def)
    from Cons.IH [OF this] True show ?thesis by simp
  next
    case False
    then show ?thesis by simp
  qed
qed

lemma inodes_of_files_iff:
  "inodes_of_files opn fds = Inr inodes \<longleftrightarrow> map (fd_inodes opn) fds = map Some inodes"
proof (induction fds arbitrary: inodes)
  case Nil
  then show ?case by auto
next
  case (Cons fd fds)
  show ?case
  proof (cases "fd_inodes opn fd")
    case None
    then show ?thesis by (cases inodes) simp_all
  next
    case (Some i)
    show ?thesis
    proof (cases "inodes_of_files opn fds")
      case (Inl e)
      with Cons.IH have "\<And>rs. map (fd_inodes opn) fds \<noteq> map Some rs" by simp
      with Some Inl show ?thesis by (cases inodes) simp_all
    next
      case (Inr rs)
      with Cons.IH [of rs] have m: "map (fd_inodes opn) fds = map Some rs" by simp
      have inj: "\<And>xs ys :: inode list. map Some xs = map Some ys \<Longrightarrow> xs = ys"
        by (simp add: inj_map_eq_map)
      show ?thesis using Some Inr m inj by (cases inodes) auto
    qed
  qed
qed

lemma dedup_fileset_short:
  "length fileset < 2 \<Longrightarrow> dedup_fileset env cohort opn fileset st = Inr st"
  by (cases fileset; cases "tl fileset") (simp_all add: dedup_fileset_def)

lemma dedup_fileset_differ:
  "\<not> all_equal_to env sfile (dfile # dfiles) \<Longrightarrow>
   dedup_fileset env cohort opn (sfile # dfile # dfiles) st = Inl AssertionError"
  unfolding dedup_fileset_def by (simp add: clone_dfiles_differ del: clone_dfiles.simps)

lemma dedup_fileset_none:
  assumes "all_equal_to env sfile (dfile # dfiles)"
    and "cloned_from env sfile (dfile # dfiles) = []"
  shows "dedup_fileset env cohort opn (sfile # dfile # dfiles) st =
     Inr (st\<lparr>calls := calls st @ map (\<lambda>d. Clone_data d sfile) (dfile # dfiles)\<rparr>)"
  unfolding dedup_fileset_def
  using assms(2) by (simp add: clone_dfiles_equal [OF assms(1)] del: clone_dfiles.simps)

lemma dedup_fileset_some:
  assumes "all_equal_to env sfile (dfile # dfiles)"
    and "cloned_from env sfile (dfile # dfiles) \<noteq> []"
    and "map (fd_inodes opn) (sfile # cloned_from env sfile (dfile # dfiles)) = map Some inodes"
  shows "dedup_fileset env cohort opn (sfile # dfile # dfiles) st =
     Inr (st\<lparr>calls := calls st @ map (\<lambda>d. Clone_data d sfile) (dfile # dfiles),
             dedup_events := dedup_events st
               @ [\<lparr>item_size = comm_size cohort,
                    event_inodes = map (\<lambda>i. (ino i, vol_id i)) inodes\<rparr>]\<rparr>)"
proof -
  from assms(3) have "inodes_of_files opn (sfile # cloned_from env sfile (dfile # dfiles))
      = Inr inodes"
    by (simp only: inodes_of_files_iff)
  then show ?thesis
    unfolding dedup_fileset_def
    using assms(2)
    by (simp add: clone_dfiles_equal [OF assms(1)] new_event_def
        del: clone_dfiles.simps inodes_of_files.simps)
qed

text \<open>
  Claim C3, amended. For a hash bucket with a source file and at least one destination in
  which every byte-wise compare of the source with a destination succeeds: when no call of
  \<^verbatim>\<open>clone_data\<close> returns true, no DedupEvent row is written; when at least one does, one
  DedupEvent row is written, its \<open>item_size\<close> is the size of the cohort, and its
  DedupEventInode rows are those of the source file followed by the destinations whose
  call returned true, in order, and of no other file. In both cases \<^verbatim>\<open>clone_data\<close> is
  called once for every destination. When a compare fails the run is aborted by the
  assertion and no DedupEvent row is written for the bucket, whatever \<^verbatim>\<open>clone_data\<close>
  returned before. A bucket of fewer than two files changes nothing.
\<close>

theorem dedup_fileset_event:
  "(all_equal_to env sfile (dfile # dfiles)
      \<and> cloned_from env sfile (dfile # dfiles) = [] \<longrightarrow>
      dedup_fileset env cohort opn (sfile # dfile # dfiles) st =
        Inr (st\<lparr>calls := calls st @ map (\<lambda>d. Clone_data d sfile) (dfile # dfiles)\<rparr>))
   \<and> (all_equal_to env sfile (dfile # dfiles)
      \<and> cloned_from env sfile (dfile # dfiles) \<noteq> []
      \<and> map (fd_inodes opn) (sfile # cloned_from env sfile (dfile # dfiles)) = map Some inodes \<longrightarrow>
      dedup_fileset env cohort opn (sfile # dfile # dfiles) st =
        Inr (st\<lparr>calls := calls st @ map (\<lambda>d. Clone_data d sfile) (dfile # dfiles),
                dedup_events := dedup_events st
                  @ [\<lparr>item_size = comm_size cohort,
                       event_inodes = map (\<lambda>i. (ino i, vol_id i)) inodes\<rparr>]\<rparr>))
   \<and> (\<not> all_equal_to env sfile (dfile # dfiles) \<longrightarrow>
      dedup_fileset env cohort opn (sfile # dfile # dfiles) st = Inl AssertionError)
   \<and> (length fileset < 2 \<longrightarrow> dedup_fileset env cohort opn fileset st = Inr st)"
proof (intro conjI impI)
  assume "all_equal_to env sfile (dfile # dfiles)
      \<and> cloned_from env sfile (dfile # dfiles) = []"
  then show "dedup_fileset env cohort opn (sfile # dfile # dfiles) st =
        Inr (st\<lparr>calls := calls st @ map (\<lambda>d. Clone_data d sfile) (dfile # dfiles)\<rparr>)"
    by (simp add: dedup_fileset_none)
next
  assume "all_equal_to env sfile (dfile # dfiles)
      \<and> cloned_from env sfile (dfile # dfiles) \<noteq> []
      \<and> map (fd_inodes opn) (sfile # cloned_from env sfile (dfile # dfiles)) = map Some inodes"
  then have a: "all_equal_to env sfile (dfile # dfiles)"
    and b: "cloned_from env sfile (dfile # dfiles) \<noteq> []"
    and c: "map (fd_inodes opn) (sfile # cloned_from env sfile (dfile # dfiles)) = map Some inodes"
    by blast+
  show "dedup_fileset env cohort opn (sfile # dfile # dfiles) st =
        Inr (st\<lparr>calls := calls st @ map (\<lambda>d. Clone_data d sfile) (dfile # dfiles),
                dedup_events := dedup_events st
                  @ [\<lparr>item_size = comm_size cohort,
                       event_inodes = map (\<lambda>i. (ino i, vol_id i)) inodes\<rparr>]\<rparr>)"
    by (rule dedup_fileset_some [OF a b c])
next
  assume "\<not> all_equal_to env sfile (dfile # dfiles)"
  then show "dedup_fileset env cohort opn (sfile # dfile # dfiles) st = Inl AssertionError"
    by (rule dedup_fileset_differ)
next
  assume "length fileset < 2"
  then show "dedup_fileset env cohort opn fileset st = Inr st"
    by (rule dedup_fileset_short)
qed

text \<open>
  Three equal files: the clone into descriptor 2 changes extents, the clone into
  descriptor 3 finds them shared. The event names the inodes 7 and 8 and not 9.
\<close>

theorem dedup_fileset_event_witness:
  "all_equal_to env_sample 1 [2, 3]
   \<and> cloned_from env_sample 1 [2, 3] = [2]
   \<and> map (fd_inodes opened_three) [1, 2] = map Some [row 1 7 10 True, row 1 8 10 False]
   \<and> dedup_fileset env_sample comm_three opened_three [1, 2, 3] (sess_of [] [])
     = Inr ((sess_of [] [])
             \<lparr>calls := [Clone_data 2 1, Clone_data 3 1],
              dedup_events := [\<lparr>item_size = 10, event_inodes = [(7, 1), (8, 1)]\<rparr>]\<rparr>)"
  using dedup_fileset_event [where env = env_sample and sfile = 1 and dfile = 2
      and dfiles = "[3]" and opn = opened_three and cohort = comm_three
      and inodes = "[row 1 7 10 True, row 1 8 10 False]" and st = "sess_of [] []"
      and fileset = "[1]"]
  by (simp add: all_equal_to_def cloned_from_def env_sample_def opened_three_def
      comm_three_def comm_of_def row_def sess_of_def)

text \<open>
  The claim as it was stated fails when a later compare fails: the clone into descriptor 2
  has returned true, descriptor 3 then differs from the source, and the bucket ends in the
  assertion without a DedupEvent row.
\<close>

theorem dedup_fileset_abort_counterexample:
  "clone_data env_differ 2 1
   \<and> cmp_files env_differ 1 2
   \<and> dedup_fileset env_differ comm_three opened_three [1, 2, 3] (sess_of [] [])
     = Inl AssertionError"
  by (simp add: dedup_fileset_def env_differ_def env_sample_def)

lemma dedup_fileset_soft:
  assumes "dedup_fileset env cohort opn fileset st = Inr st'"
  shows "ofile_soft st' = ofile_soft st"
proof (cases "length fileset < 2")
  case True
  with assms show ?thesis by (simp add: dedup_fileset_short)
next
  case False
  then obtain sfile dfile dfiles where f: "fileset = sfile # dfile # dfiles"
    by (cases fileset; cases "tl fileset") auto
  show ?thesis
  proof (cases "all_equal_to env sfile (dfile # dfiles)")
    case True
    from assms show ?thesis
      unfolding f dedup_fileset_def
      by (auto simp: clone_dfiles_equal [OF True] split: if_splits sum.splits
          simp del: clone_dfiles.simps inodes_of_files.simps)
  next
    case False
    with assms f show ?thesis by (simp add: dedup_fileset_differ)
  qed
qed

lemma dedup_filesets_soft:
  "dedup_filesets env cohort opn filesets st = Inr st' \<Longrightarrow> ofile_soft st' = ofile_soft st"
proof (induction filesets arbitrary: st)
  case Nil
  then show ?case by simp
next
  case (Cons f rest)
  from Cons.prems obtain st1 where a: "dedup_fileset env cohort opn f st = Inr st1"
    and b: "dedup_filesets env cohort opn rest st1 = Inr st'"
    by (auto split: sum.splits)
  from Cons.IH [OF b] dedup_fileset_soft [OF a] show ?case by simp
qed

lemma process_cohort_soft:
  assumes "process_cohort env cohort st = Inr st'"
  shows "ofile_soft st' = ofile_soft st"
proof -
  from assms obtain st1 opn st2 by_hash where
    a: "open_inodes env (comm_inodes cohort) (st, no_files) = Inr (st1, opn)"
    and b: "hash_files env cohort opn (fds_in_write_use env (files opn)) (files opn) (st1, [])
        = Inr (st2, by_hash)"
    and c: "dedup_filesets env cohort opn (map snd by_hash) st2 = Inr st'"
    unfolding process_cohort_def by (auto split: sum.splits)
  from open_inodes_Inr [OF a] hash_files_soft [OF b] dedup_filesets_soft [OF c]
  show ?thesis by simp
qed

text \<open>
  Claim C6. For a cohort whose grouping query counted \<open>count3\<close> inodes, processed with \<open>v\<close>
  volumes, the required number of descriptors is \<open>2 * count3 + (7 + v)\<close>. When it exceeds
  the soft limit and not the hard limit, \<^verbatim>\<open>setrlimit\<close> is called with exactly the
  requirement, the cohort is processed from there, and the soft limit is the requirement
  when the cohort is done. When it exceeds the hard limit (the soft limit being at most the
  hard limit, as \<^verbatim>\<open>getrlimit\<close> reports them), the cohort ends at once: no call is issued,
  so no file is opened and no clone is asked for, no row and no event changes, and the
  inodes of the cohort with \<open>has_updates\<close> set are appended to the skipped list.
\<close>

theorem descriptor_budget:
  "ofile_req_of cohort (ofile_reserved_of volset)
     = 2 * int (inode_count cohort) + (7 + int (length volset))
   \<and> (ofile_soft st < ofile_req_of cohort (ofile_reserved_of volset)
      \<and> ofile_req_of cohort (ofile_reserved_of volset) \<le> ofile_hard \<longrightarrow>
        dedup_comm3 env (ofile_reserved_of volset) ofile_hard cohort st =
          process_cohort env cohort
            (st\<lparr>ofile_soft := ofile_req_of cohort (ofile_reserved_of volset),
                calls := calls st
                  @ [Setrlimit (ofile_req_of cohort (ofile_reserved_of volset)) ofile_hard]\<rparr>)
      \<and> (\<forall>st'. dedup_comm3 env (ofile_reserved_of volset) ofile_hard cohort st = Inr st' \<longrightarrow>
            ofile_soft st' = ofile_req_of cohort (ofile_reserved_of volset)))
   \<and> (ofile_soft st \<le> ofile_hard
      \<and> ofile_hard < ofile_req_of cohort (ofile_reserved_of volset) \<longrightarrow>
        dedup_comm3 env (ofile_reserved_of volset) ofile_hard cohort st =
          Inr (st\<lparr>skipped := skipped st @ filter has_updates (comm_inodes cohort)\<rparr>))"
proof (intro conjI impI allI)
  show "ofile_req_of cohort (ofile_reserved_of volset)
     = 2 * int (inode_count cohort) + (7 + int (length volset))"
    by (simp add: ofile_req_of_def ofile_reserved_of_def)
next
  assume h: "ofile_soft st < ofile_req_of cohort (ofile_reserved_of volset)
      \<and> ofile_req_of cohort (ofile_reserved_of volset) \<le> ofile_hard"
  then show eq: "dedup_comm3 env (ofile_reserved_of volset) ofile_hard cohort st =
          process_cohort env cohort
            (st\<lparr>ofile_soft := ofile_req_of cohort (ofile_reserved_of volset),
                calls := calls st
                  @ [Setrlimit (ofile_req_of cohort (ofile_reserved_of volset)) ofile_hard]\<rparr>)"
    by (simp add: dedup_comm3_def Let_def issue_def)
  fix st'
  assume "dedup_comm3 env (ofile_reserved_of volset) ofile_hard cohort st = Inr st'"
  with eq have "process_cohort env cohort
            (st\<lparr>ofile_soft := ofile_req_of cohort (ofile_reserved_of volset),
                calls := calls st
                  @ [Setrlimit (ofile_req_of cohort (ofile_reserved_of volset)) ofile_hard]\<rparr>)
        = Inr st'" by simp
  from process_cohort_soft [OF this]
  show "ofile_soft st' = ofile_req_of cohort (ofile_reserved_of volset)" by simp
next
  assume "ofile_soft st \<le> ofile_hard
      \<and> ofile_hard < ofile_req_of cohort (ofile_reserved_of volset)"
  then show "dedup_comm3 env (ofile_reserved_of volset) ofile_hard cohort st =
          Inr (st\<lparr>skipped := skipped st @ filter has_updates (comm_inodes cohort)\<rparr>)"
    by (simp add: dedup_comm3_def Let_def)
qed

text \<open>
  Three inodes and one volume need 14 descriptors, the soft limit is 10. Under a hard
  limit of 100 the soft limit is raised to 14 and the cohort is deduplicated; under a hard
  limit of 12 the two inodes with pending updates are skipped and nothing else happens.
\<close>

theorem descriptor_budget_witness:
  "ofile_req_of comm_three (ofile_reserved_of [vol_tracked]) = 14
   \<and> ofile_soft (sess_of [] []) < 14
   \<and> dedup_comm3 env_sample (ofile_reserved_of [vol_tracked]) 100 comm_three (sess_of [] [])
     = Inr \<lparr>inode_table = [], skipped = [],
            dedup_events = [\<lparr>item_size = 10, event_inodes = [(7, 1), (8, 1)]\<rparr>],
            ofile_soft = 14,
            calls = [Setrlimit 14 100, Fopenat_rw 1 ''a'', Fopenat_rw 1 ''b'',
                     Fopenat_rw 1 ''c'', Clone_data 2 1, Clone_data 3 1]\<rparr>
   \<and> ofile_soft (sess_of [] []) \<le> 12
   \<and> dedup_comm3 env_sample (ofile_reserved_of [vol_tracked]) 12 comm_three (sess_of [] [])
     = Inr ((sess_of [] [])\<lparr>skipped := [row 1 7 10 True, row 1 9 10 True]\<rparr>)"
proof -
  have r: "ofile_req_of comm_three (ofile_reserved_of [vol_tracked]) = 14"
    by (simp add: ofile_req_of_def ofile_reserved_of_def comm_three_def comm_of_def)
  have s: "ofile_soft (sess_of [] []) = 10"
    by (simp add: sess_of_def)
  have p: "process_cohort env_sample comm_three
        ((sess_of [] [])\<lparr>ofile_soft := 14, calls := calls (sess_of [] []) @ [Setrlimit 14 100]\<rparr>)
     = Inr \<lparr>inode_table = [], skipped = [],
            dedup_events = [\<lparr>item_size = 10, event_inodes = [(7, 1), (8, 1)]\<rparr>],
            ofile_soft = 14,
            calls = [Setrlimit 14 100, Fopenat_rw 1 ''a'', Fopenat_rw 1 ''b'',
                     Fopenat_rw 1 ''c'', Clone_data 2 1, Clone_data 3 1]\<rparr>"
    by (simp add: process_cohort_def open_inodes.simps env_sample_def comm_three_def
        comm_of_def row_def sess_of_def no_files_def issue_def skipped_append_def
        sess_delete_def by_hash_append_def dedup_fileset_def new_event_def vol_tracked_def)
  have f: "filter has_updates (comm_inodes comm_three) = [row 1 7 10 True, row 1 9 10 True]"
    by (simp add: comm_three_def comm_of_def row_def)
  from descriptor_budget [where cohort = comm_three and volset = "[vol_tracked]"
      and st = "sess_of [] []" and ofile_hard = 100 and env = env_sample]
    descriptor_budget [where cohort = comm_three and volset = "[vol_tracked]"
      and st = "sess_of [] []" and ofile_hard = 12 and env = env_sample]
    r s p f
  show ?thesis by (simp add: sess_of_def)
qed

text \<open>
  Claim C7. In the open loop over the inodes of a cohort, each inode goes one of four
  ways, and the loop goes on with the remaining inodes in the first three. When the path
  lookup fails with ENOENT, the Inode row is deleted and the inode is not among the files.
  When the open fails with ENOENT, ETXTBSY or EACCES, the inode is appended to the skipped
  list and is not among the files. When both succeed, the descriptor is appended to the
  files. Any other error of the path lookup or of the open ends the loop with that error.
  Over the whole loop: if some inode meets such an error the loop ends in an IOError; if
  none does, the loop returns, the skipped list has grown by exactly the inodes whose open
  failed in one of the three ways, the files by exactly the descriptors opened, and the
  Inode table has lost exactly the rows of the inodes whose lookup failed with ENOENT.
\<close>

theorem open_phase_errors:
  "open_inodes env (inode # rest) (st, opn) =
     (case open_outcome env inode of
        Dropped \<Rightarrow> open_inodes env rest (sess_delete inode st, opn)
      | Skipped p \<Rightarrow>
          open_inodes env rest
            (skipped_append inode (issue (Fopenat_rw (vol_id inode) p) st), opn)
      | Opened p fd \<Rightarrow>
          open_inodes env rest
            (issue (Fopenat_rw (vol_id inode) p) st,
             opn\<lparr>files := files opn @ [fd],
                 fd_inodes := (fd_inodes opn)(fd \<mapsto> inode),
                 fd_names := (fd_names opn)(fd \<mapsto> p)\<rparr>)
      | Fatal e \<Rightarrow> Inl (IOError e))
   \<and> ((\<exists>i\<in>set inodes. is_fatal env i) \<longrightarrow>
        (\<exists>e. open_inodes env inodes (st, opn) = Inl (IOError e)))
   \<and> ((\<forall>i\<in>set inodes. \<not> is_fatal env i) \<longrightarrow>
        (\<exists>st' opn'. open_inodes env inodes (st, opn) = Inr (st', opn')
           \<and> skipped st' = skipped st @ filter (is_skipped_open env) inodes
           \<and> files opn' = files opn @ opened_fds env inodes
           \<and> inode_table st' = filter (\<lambda>r. \<not> dropped_row env inodes r) (inode_table st)))"
proof (intro conjI impI)
  show "open_inodes env (inode # rest) (st, opn) =
     (case open_outcome env inode of
        Dropped \<Rightarrow> open_inodes env rest (sess_delete inode st, opn)
      | Skipped p \<Rightarrow>
          open_inodes env rest
            (skipped_append inode (issue (Fopenat_rw (vol_id inode) p) st), opn)
      | Opened p fd \<Rightarrow>
          open_inodes env rest
            (issue (Fopenat_rw (vol_id inode) p) st,
             opn\<lparr>files := files opn @ [fd],
                 fd_inodes := (fd_inodes opn)(fd \<mapsto> inode),
                 fd_names := (fd_names opn)(fd \<mapsto> p)\<rparr>)
      | Fatal e \<Rightarrow> Inl (IOError e))"
    by (rule open_inodes_step)
next
  assume "\<exists>i\<in>set inodes. is_fatal env i"
  then show "\<exists>e. open_inodes env inodes (st, opn) = Inl (IOError e)"
    by (rule open_inodes_fatal)
next
  assume "\<forall>i\<in>set inodes. \<not> is_fatal env i"
  from open_inodes_ok [OF this, of st opn]
  show "\<exists>st' opn'. open_inodes env inodes (st, opn) = Inr (st', opn')
           \<and> skipped st' = skipped st @ filter (is_skipped_open env) inodes
           \<and> files opn' = files opn @ opened_fds env inodes
           \<and> inode_table st' = filter (\<lambda>r. \<not> dropped_row env inodes r) (inode_table st)"
    by blast
qed

text \<open>
  Inode 4 has lost its path, inode 5 is busy, inode 9 opens as descriptor 3; and a loop
  that meets inode 6, whose lookup fails with another errno, ends with that error.
\<close>

theorem open_phase_errors_witness:
  "\<not> is_fatal env_sample (row 1 4 10 True)
   \<and> \<not> is_fatal env_sample (row 1 5 10 True)
   \<and> \<not> is_fatal env_sample (row 1 9 10 True)
   \<and> open_inodes env_sample [row 1 4 10 True, row 1 5 10 True, row 1 9 10 True]
        (sess_of [row 1 4 10 True, row 1 5 10 True, row 1 9 10 True] [], no_files)
     = Inr ((sess_of [row 1 5 10 True, row 1 9 10 True] [row 1 5 10 True])
              \<lparr>calls := [Fopenat_rw 1 ''d'', Fopenat_rw 1 ''c'']\<rparr>,
            \<lparr>files = [3], fd_inodes = [3 \<mapsto> row 1 9 10 True], fd_names = [3 \<mapsto> ''c'']\<rparr>)
   \<and> is_fatal env_sample (row 1 6 10 True)
   \<and> open_inodes env_sample [row 1 9 10 True, row 1 6 10 True] (sess_of [] [], no_files)
     = Inl (IOError (EOTHER 5))"
  using open_phase_errors [where env = env_sample
      and inodes = "[row 1 4 10 True, row 1 5 10 True, row 1 9 10 True]"
      and st = "sess_of [row 1 4 10 True, row 1 5 10 True, row 1 9 10 True] []"
      and opn = no_files and inode = "row 1 9 10 True" and rest = "[row 1 6 10 True]"]
    open_phase_errors [where env = env_sample
      and inodes = "[row 1 9 10 True, row 1 6 10 True]"
      and st = "sess_of [] []"
      and opn = no_files and inode = "row 1 9 10 True" and rest = "[row 1 6 10 True]"]
  by (simp add: is_fatal_def open_outcome_def open_inodes.simps env_sample_def row_def
      sess_of_def no_files_def issue_def skipped_append_def sess_delete_def delete_inode_def
      same_key_def)

text \<open>Every member is hashed again.\<close>

lemma same_key_mini_hash [simp]:
  "same_key v i (r\<lparr>mini_hash := h\<rparr>) = same_key v i r"
  by (simp add: same_key_def)







end
